theory Spec2Isabelle
  imports Main "HOL-Library.AList" "HOL-Library.Sublist"
begin

section \<open>Data model of \<open>gpt_search.py\<close>\<close>

text \<open>
  Python strings are modelled as \<open>string\<close>; one \<open>char\<close> stands for one code point, so
  \<open>length\<close> is Python's \<open>len\<close> and \<open>take\<close> is the slice \<open>s[:n]\<close>. An optional value
  (\<open>None\<close> or a string) is a \<open>string option\<close>. Exceptions are values of \<open>error\<close>;
  \<open>Raised msg\<close> is an exception raised inside an imported library (network, search
  provider, language-model service, JSON parser) whose \<open>str\<close> is \<open>msg\<close>.
\<close>

datatype error = AssertionError | TypeError | KeyError | AttributeError | Raised string

text \<open>The two model names of \<open>max_token_count\<close> (lines 19--22) and of \<open>args.model\<close>.\<close>

datatype model = GPT4 | GPT35Turbo

fun model_name :: "model \<Rightarrow> string" where
  "model_name GPT4 = ''gpt-4''"
| "model_name GPT35Turbo = ''gpt-3.5-turbo''"

fun max_token_count :: "model \<Rightarrow> nat" where
  "max_token_count GPT4 = 8192"
| "max_token_count GPT35Turbo = 4097"

abbreviation nl :: char where
  "nl \<equiv> CHR 0x0A"

text \<open>The parsed command line: \<open>args.gpt4\<close>, \<open>args.verbose\<close>, \<open>args.question\<close>.\<close>

record args =
  gpt4 :: bool
  verbose :: bool
  question :: string

text \<open>Lines 121--124: \<open>args.model\<close> is set from the flag.\<close>

definition args_model :: "args \<Rightarrow> model" where
  "args_model a = (if gpt4 a then GPT4 else GPT35Turbo)"

text \<open>
  What \<open>requests.get\<close> returns and what \<open>BeautifulSoup\<close> makes of it. \<open>title\<close> is
  \<open>None\<close> when the document has no title element (\<open>soup.title\<close> is \<open>None\<close>),
  \<open>Some None\<close> when the element is there and its \<open>.string\<close> is \<open>None\<close>, and
  \<open>Some (Some t)\<close> otherwise.
\<close>

record response =
  status_code :: nat
  content :: string

record soup =
  stripped_strings :: "string list"
  title :: "string option option"

text \<open>
  The imported collaborators, as parameters: the tokenizer of a model
  (\<open>tiktoken.encoding_for_model(m).encode\<close>), the completion service, the search provider
  (the \<open>href\<close> of each result, in the order returned), the HTTP client, the HTML parser,
  \<open>json.loads\<close> on a list of strings, today's date as \<open>strftime\<close> prints it, and the
  text that \<open>pprint\<close> makes of a label and a dictionary from topic to length.
  Each is a function of its arguments.
\<close>

record world =
  encoding_for_model :: "model \<Rightarrow> string \<Rightarrow> nat list"
  chat_completion :: "model \<Rightarrow> string \<Rightarrow> error + string"
  ddg :: "string \<Rightarrow> error + string list"
  requests_get :: "string \<Rightarrow> error + response"
  html_parser :: "string \<Rightarrow> soup"
  json_loads :: "string \<Rightarrow> error + string list"
  today :: string
  pprint :: "string \<times> (string \<times> nat) list \<Rightarrow> string"

text \<open>
  The mutable state of a run: the global \<open>gpt_query_count\<close>, the three persistent stores
  of \<open>memory\<close> (one per decorated function), the requests sent to the completion service
  and to the HTTP client so far, and the lines printed.
\<close>

record state =
  gpt_query_count :: nat
  gpt_store :: "string \<times> model option \<rightharpoonup> string"
  ddg_store :: "string \<rightharpoonup> (string \<times> string option \<times> string) option"
  fetch_store :: "string \<rightharpoonup> string option \<times> string option"
  completions :: "(model \<times> string) list"
  fetched :: "string list"
  stdout :: "string list"

text \<open>\<open>Background\<close>: a Python \<open>dict\<close> from topic to text, in insertion order.\<close>

type_synonym background = "(string \<times> string option) list"

section \<open>Printing\<close>

definition digit :: "nat \<Rightarrow> char" where
  "digit d = ''0123456789'' ! d"

fun str_nat :: "nat \<Rightarrow> string" where
  "str_nat n = (if n < 10 then [digit n] else str_nat (n div 10) @ [digit (n mod 10)])"

declare str_nat.simps [simp del]

text \<open>How an f-string renders an optional string: \<open>None\<close> prints as the word.\<close>

fun str_opt :: "string option \<Rightarrow> string" where
  "str_opt None = ''None''"
| "str_opt (Some t) = t"

fun str_error :: "error \<Rightarrow> string" where
  "str_error (Raised msg) = msg"
| "str_error AttributeError =
     [CHR 0x27] @ ''NoneType'' @ [CHR 0x27] @ '' object has no attribute '' @
     [CHR 0x27] @ ''string'' @ [CHR 0x27]"
| "str_error _ = []"

fun join :: "string \<Rightarrow> string list \<Rightarrow> string" where
  "join sep [] = []"
| "join sep [x] = x"
| "join sep (x # y # ys) = x @ sep @ join sep (y # ys)"

definition print :: "string \<Rightarrow> state \<Rightarrow> state" where
  "print line s = s\<lparr>stdout := stdout s @ [line]\<rparr>"

text \<open>\<open>if args.verbose: print(...)\<close>\<close>

definition verbose_print :: "args \<Rightarrow> string \<Rightarrow> state \<Rightarrow> state" where
  "verbose_print a line s = (if verbose a then print line s else s)"

section \<open>Token Accountant\<close>

text \<open>Lines 44--47: the tokenizer of the active model, its count doubled.\<close>

definition token_count :: "world \<Rightarrow> model \<Rightarrow> string \<Rightarrow> nat" where
  "token_count w m text = length (encoding_for_model w m text) * 2"

text \<open>Lines 49--52.\<close>

definition background_text :: "background \<Rightarrow> string" where
  "background_text bg =
     join [nl, nl] (map (\<lambda>(subject, contents). subject @ [CHR '':'', nl] @ str_opt contents) bg)"

section \<open>Context Reducer, phase 1\<close>

text \<open>
  \<open>int(len(t) * .9)\<close>. The double nearest to 0.9 lies above 9/10 by less than
  \<open>2.3e-17\<close>, so for every length below \<open>10^14\<close> the rounded product lies at or above
  \<open>9 * n / 10\<close> and below the next integer: the truncation is \<open>9 * n div 10\<close>.
\<close>

definition cut_text :: "string \<Rightarrow> string" where
  "cut_text t = take (9 * length t div 10) t"

text \<open>
  Lines 58--59, the \<open>while\<close> loop on one topic's text. \<open>None\<close> is a loop that never exits.
\<close>

partial_function (option) shorten_text :: "world \<Rightarrow> model \<Rightarrow> string \<Rightarrow> string option" where
  "shorten_text w m t =
     (if token_count w m t > max_token_count m then shorten_text w m (cut_text t) else Some t)"

text \<open>
  Lines 55--60, the \<open>for\<close> loop over the keys. \<open>background[subject]\<close> raises \<open>KeyError\<close> on a
  missing key; \<open>not background[subject]\<close> holds for \<open>None\<close> and for the empty string.
\<close>

fun shorten_loop :: "world \<Rightarrow> model \<Rightarrow> string list \<Rightarrow> background \<Rightarrow> (error + background) option" where
  "shorten_loop w m [] bg = Some (Inr bg)"
| "shorten_loop w m (subject # rest) bg =
     (case map_of bg subject of
        None \<Rightarrow> Some (Inl KeyError)
      | Some None \<Rightarrow> shorten_loop w m rest bg
      | Some (Some t) \<Rightarrow>
          if t = [] then shorten_loop w m rest bg
          else (case shorten_text w m t of
                  None \<Rightarrow> None
                | Some t' \<Rightarrow> shorten_loop w m rest (AList.update subject (Some t') bg)))"

definition shorten :: "world \<Rightarrow> model \<Rightarrow> background \<Rightarrow> (error + background) option" where
  "shorten w m bg = shorten_loop w m (map fst bg) bg"

section \<open>Memoized-call layer\<close>

text \<open>
  Modelled from the spec: \<open>joblib.Memory.cache\<close> (lines 16--17, imported, its code is not
  part of the repository). A call whose key is stored returns the stored result and does
  not run the wrapped operation; otherwise the operation runs, and its result is stored
  under the key unless it raised. \<open>get\<close> and \<open>put\<close> read and write the store of the decorated
  function.
\<close>

definition memory_cache ::
  "(state \<Rightarrow> 'a \<rightharpoonup> 'r) \<Rightarrow> (('a \<rightharpoonup> 'r) \<Rightarrow> state \<Rightarrow> state) \<Rightarrow>
   ('a \<Rightarrow> state \<Rightarrow> (error + 'r) \<times> state) \<Rightarrow> 'a \<Rightarrow> state \<Rightarrow> (error + 'r) \<times> state" where
  "memory_cache get put f a s =
     (case get s a of
        Some r \<Rightarrow> (Inr r, s)
      | None \<Rightarrow>
          (case f a s of
             (Inl e, s') \<Rightarrow> (Inl e, s')
           | (Inr r, s') \<Rightarrow> (Inr r, put ((get s')(a \<mapsto> r)) s')))"

section \<open>Language-model call\<close>

text \<open>
  Lines 29--42, the body of \<open>gpt\<close>; \<open>am\<close> is \<open>args.model\<close>. The request is recorded in
  \<open>completions\<close> when it is sent, whether or not the service answers.
\<close>

definition gpt_body :: "world \<Rightarrow> model \<Rightarrow> string \<times> model option \<Rightarrow> state \<Rightarrow> (error + string) \<times> state" where
  "gpt_body w am = (\<lambda>(prompt, mo) s.
     if \<not> length prompt > 25 then (Inl AssertionError, s)
     else
       let s1 = s\<lparr>gpt_query_count := gpt_query_count s + 1\<rparr>;
           md = (case mo of Some x \<Rightarrow> x | None \<Rightarrow> am);
           s2 = s1\<lparr>completions := completions s1 @ [(md, prompt)]\<rparr>
       in (case chat_completion w md prompt of
             Inl e \<Rightarrow> (Inl e, s2)
           | Inr r \<Rightarrow> (Inr r, s2)))"

text \<open>Line 28: the decorated function.\<close>

definition gpt :: "world \<Rightarrow> model \<Rightarrow> string \<Rightarrow> model option \<Rightarrow> state \<Rightarrow> (error + string) \<times> state" where
  "gpt w am prompt mo =
     memory_cache gpt_store (\<lambda>c s. s\<lparr>gpt_store := c\<rparr>) (gpt_body w am) (prompt, mo)"

section \<open>Context Reducer, phase 2\<close>

definition summarize_prompt :: "string \<Rightarrow> string \<Rightarrow> string" where
  "summarize_prompt subject t =
     ''Concisely summarize the facts about '' @ subject @ [CHR '':'', nl] @ t"

text \<open>Lines 63--71: one pass over the keys, with the early \<open>return\<close> of line 67.\<close>

fun summarize_loop ::
  "world \<Rightarrow> model \<Rightarrow> string list \<Rightarrow> background \<Rightarrow> state \<Rightarrow> (error + background) \<times> state" where
  "summarize_loop w m [] bg s = (Inr bg, s)"
| "summarize_loop w m (subject # rest) bg s =
     (case map_of bg subject of
        None \<Rightarrow> (Inl KeyError, s)
      | Some None \<Rightarrow> summarize_loop w m rest bg s
      | Some (Some t) \<Rightarrow>
          if t = [] then summarize_loop w m rest bg s
          else if token_count w m (background_text bg) \<le> max_token_count m then (Inr bg, s)
          else (case gpt w m (summarize_prompt subject t) None s of
                  (Inl e, s') \<Rightarrow> (Inl e, s')
                | (Inr r, s') \<Rightarrow> summarize_loop w m rest (AList.update subject (Some r) bg) s'))"

definition summarize :: "world \<Rightarrow> model \<Rightarrow> background \<Rightarrow> state \<Rightarrow> (error + background) \<times> state" where
  "summarize w m bg s = summarize_loop w m (map fst bg) bg s"

section \<open>Source Resolver\<close>

text \<open>
  Lines 87--106, the body of \<open>fetch_url_and_extract_info\<close>. Every exception inside the
  \<open>try\<close> is caught: one raised by \<open>requests.get\<close>, and the \<open>AttributeError\<close> of
  \<open>soup.title.string\<close> when \<open>soup.title\<close> is \<open>None\<close>. The result is the pair (title, text).
\<close>

definition fetch_body ::
  "world \<Rightarrow> string \<Rightarrow> state \<Rightarrow> (error + string option \<times> string option) \<times> state" where
  "fetch_body w url s =
     (let s1 = s\<lparr>fetched := fetched s @ [url]\<rparr> in
      case requests_get w url of
        Inl e \<Rightarrow> (Inr (None, None), print (''Error fetching '' @ url @ '': '' @ str_error e) s1)
      | Inr resp \<Rightarrow>
          if status_code resp = 200 then
            (let sp = html_parser w (content resp);
                 text = join '' '' (stripped_strings sp)
             in case title sp of
                  None \<Rightarrow>
                    (Inr (None, None),
                     print (''Error fetching '' @ url @ '': '' @ str_error AttributeError) s1)
                | Some title_string \<Rightarrow> (Inr (title_string, Some text), s1))
          else
            (Inr (None, None),
             print (''Error fetching '' @ url @ '': '' @ str_nat (status_code resp)) s1))"

definition fetch_url_and_extract_info ::
  "world \<Rightarrow> string \<Rightarrow> state \<Rightarrow> (error + string option \<times> string option) \<times> state" where
  "fetch_url_and_extract_info w =
     memory_cache fetch_store (\<lambda>c s. s\<lparr>fetch_store := c\<rparr>) (fetch_body w)"

text \<open>
  Lines 78--83, the loop over the results; \<open>if content\<close> fails for \<open>None\<close> and for the empty
  string. A loop that ends without a hit returns \<open>None\<close>.
\<close>

fun first_hit ::
  "world \<Rightarrow> args \<Rightarrow> string list \<Rightarrow> state \<Rightarrow>
   (error + (string \<times> string option \<times> string) option) \<times> state" where
  "first_hit w a [] s = (Inr None, s)"
| "first_hit w a (href # rest) s =
     (case fetch_url_and_extract_info w href (verbose_print a (''  Fetching '' @ href) s) of
        (Inl e, s') \<Rightarrow> (Inl e, s')
      | (Inr (title_string, None), s') \<Rightarrow> first_hit w a rest s'
      | (Inr (title_string, Some text), s') \<Rightarrow>
          if text = [] then first_hit w a rest s'
          else (Inr (Some (href, title_string, text)), s'))"

text \<open>Lines 74--83, the body of \<open>ddg_top_hit\<close>, and the decorated function.\<close>

definition ddg_top_hit_body ::
  "world \<Rightarrow> args \<Rightarrow> string \<Rightarrow> state \<Rightarrow>
   (error + (string \<times> string option \<times> string) option) \<times> state" where
  "ddg_top_hit_body w a topic s =
     (let s0 = verbose_print a (''Search DDG for: '' @ topic) s in
      case ddg w topic of
        Inl e \<Rightarrow> (Inl e, s0)
      | Inr results \<Rightarrow> first_hit w a results s0)"

definition ddg_top_hit ::
  "world \<Rightarrow> args \<Rightarrow> string \<Rightarrow> state \<Rightarrow>
   (error + (string \<times> string option \<times> string) option) \<times> state" where
  "ddg_top_hit w a =
     memory_cache ddg_store (\<lambda>c s. s\<lparr>ddg_store := c\<rparr>) (ddg_top_hit_body w a)"

section \<open>Orchestrator\<close>

text \<open>
  Lines 135--138. Unpacking \<open>None\<close> into three names raises \<open>TypeError\<close>;
  \<open>background[search] = content\<close> keeps the place of a key that is already there.
\<close>

fun resolve ::
  "world \<Rightarrow> args \<Rightarrow> string list \<Rightarrow> background \<Rightarrow> (string \<times> string option) list \<Rightarrow> state \<Rightarrow>
   (error + background \<times> (string \<times> string option) list) \<times> state" where
  "resolve w a [] bg sources s = (Inr (bg, sources), s)"
| "resolve w a (search # rest) bg sources s =
     (case ddg_top_hit w a search s of
        (Inl e, s') \<Rightarrow> (Inl e, s')
      | (Inr None, s') \<Rightarrow> (Inl TypeError, s')
      | (Inr (Some (source, title_string, text)), s') \<Rightarrow>
          resolve w a rest (AList.update search (Some text) bg) (sources @ [(source, title_string)]) s')"

text \<open>
  Lines 140--141, 143--144 and 146--147: under \<open>args.verbose\<close>, the length of every topic's
  text is printed with \<open>pprint\<close>; \<open>len(None)\<close> raises \<open>TypeError\<close>.
\<close>

fun lengths :: "background \<Rightarrow> error + (string \<times> nat) list" where
  "lengths [] = Inr []"
| "lengths ((search, None) # rest) = Inl TypeError"
| "lengths ((search, Some t) # rest) =
     (case lengths rest of
        Inl e \<Rightarrow> Inl e
      | Inr ls \<Rightarrow> Inr ((search, length t) # ls))"

definition pprint_lengths ::
  "world \<Rightarrow> args \<Rightarrow> string \<Rightarrow> background \<Rightarrow> state \<Rightarrow> (error + unit) \<times> state" where
  "pprint_lengths w a label bg s =
     (if verbose a then
        (case lengths bg of
           Inl e \<Rightarrow> (Inl e, s)
         | Inr ls \<Rightarrow> (Inr (), print (pprint w (label, ls)) s))
      else (Inr (), s))"

text \<open>Lines 154--155.\<close>

fun print_sources :: "(string \<times> string option) list \<Rightarrow> state \<Rightarrow> state" where
  "print_sources [] s = s"
| "print_sources ((source, title_string) # rest) s =
     print_sources rest (print (''* ['' @ str_opt title_string @ ''](''  @ source @ '')'') s)"

definition today_prompt :: "world \<Rightarrow> string" where
  "today_prompt w = ''Today is '' @ today w @ ''.''"

definition search_prompt :: "world \<Rightarrow> args \<Rightarrow> string" where
  "search_prompt w a =
     today_prompt w @ [nl, nl] @ ''I want to know: '' @ question a @ [nl, nl] @
     ''What 3 search topics would help you answer this '' @
     ''question? Answer in a JSON list only.''"

text \<open>Lines 148--155, after the reduction.\<close>

definition report ::
  "world \<Rightarrow> args \<Rightarrow> background \<Rightarrow> (string \<times> string option) list \<Rightarrow> state \<Rightarrow> (error + unit) \<times> state" where
  "report w a bg sources s =
     (let m = args_model a in
      case gpt w m (background_text bg @ [nl, nl] @ today_prompt w @ [nl, nl] @ question a) None s of
        (Inl e, s1) \<Rightarrow> (Inl e, s1)
      | (Inr answer, s1) \<Rightarrow>
          (let s2 = print answer s1;
               s3 = print (''('' @ model_name m @ '', '' @ str_nat (gpt_query_count s2) @ '' queries)'') s2;
               s4 = print [] s3;
               s5 = print ''Sources:'' s4
           in (Inr (), print_sources sources s5)))"

text \<open>
  Lines 119--155. \<open>None\<close> is a run that never returns (the loop of \<open>shorten\<close>).
\<close>

definition main :: "world \<Rightarrow> args \<Rightarrow> state \<Rightarrow> ((error + unit) \<times> state) option" where
  "main w a s =
     (let m = args_model a in
      case gpt w m (search_prompt w a) None s of
        (Inl e, s1) \<Rightarrow> Some (Inl e, s1)
      | (Inr search_text, s1) \<Rightarrow>
     (case json_loads w search_text of
        Inl e \<Rightarrow> Some (Inl e, s1)
      | Inr searches \<Rightarrow>
     (case resolve w a searches [] [] s1 of
        (Inl e, s2) \<Rightarrow> Some (Inl e, s2)
      | (Inr (bg, sources), s2) \<Rightarrow>
     (case pprint_lengths w a ''fetched:'' bg s2 of
        (Inl e, s3) \<Rightarrow> Some (Inl e, s3)
      | (Inr u, s3) \<Rightarrow>
     (case shorten w m bg of
        None \<Rightarrow> None
      | Some (Inl e) \<Rightarrow> Some (Inl e, s3)
      | Some (Inr bg1) \<Rightarrow>
     (case pprint_lengths w a ''shortened:'' bg1 s3 of
        (Inl e, s4) \<Rightarrow> Some (Inl e, s4)
      | (Inr u, s4) \<Rightarrow>
     (case summarize w m bg1 s4 of
        (Inl e, s5) \<Rightarrow> Some (Inl e, s5)
      | (Inr bg2, s5) \<Rightarrow>
     (case pprint_lengths w a ''summarized:'' bg2 s5 of
        (Inl e, s6) \<Rightarrow> Some (Inl e, s6)
      | (Inr u, s6) \<Rightarrow> Some (report w a bg2 sources s6)))))))))"

text \<open>The state at the start of a process: counter at zero, nothing printed, the stores as
  the earlier runs left them.\<close>

definition start ::
  "(string \<times> model option \<rightharpoonup> string) \<Rightarrow>
   (string \<rightharpoonup> (string \<times> string option \<times> string) option) \<Rightarrow>
   (string \<rightharpoonup> string option \<times> string option) \<Rightarrow> state" where
  "start gs ds fs =
     \<lparr>gpt_query_count = 0, gpt_store = gs, ddg_store = ds, fetch_store = fs,
      completions = [], fetched = [], stdout = []\<rparr>"

section \<open>The resolver's policy\<close>

text \<open>
  What the body of \<open>fetch_url_and_extract_info\<close> returns for a URL (it never raises and its
  result does not depend on the state), and what the decorated function returns in a state:
  the stored pair when there is one.
\<close>

definition page_info :: "world \<Rightarrow> string \<Rightarrow> string option \<times> string option" where
  "page_info w url =
     (case fst (fetch_body w url (start Map.empty Map.empty Map.empty)) of
        Inr p \<Rightarrow> p
      | Inl e \<Rightarrow> (None, None))"

definition seen :: "world \<Rightarrow> state \<Rightarrow> string \<Rightarrow> string option \<times> string option" where
  "seen w s url = (case fetch_store s url of Some p \<Rightarrow> p | None \<Rightarrow> page_info w url)"

text \<open>
  The policy in the words of the specification: the first result, in the order returned,
  whose extracted text is non-empty.
\<close>

fun nonempty :: "string option \<times> string option \<Rightarrow> bool" where
  "nonempty (t, None) = False"
| "nonempty (t, Some text) = (text \<noteq> [])"

fun first_nonempty ::
  "(string \<times> string option \<times> string option) list \<Rightarrow> (string \<times> string option \<times> string) option" where
  "first_nonempty [] = None"
| "first_nonempty ((href, t, None) # rest) = first_nonempty rest"
| "first_nonempty ((href, t, Some text) # rest) =
     (if text = [] then first_nonempty rest else Some (href, t, text))"

section \<open>A sample environment\<close>

text \<open>
  Concrete collaborators at which the theorems below are instantiated: a tokenizer that
  makes one token of every character, a completion service that always answers \<open>ok\<close>,
  a parser that reads any text as a list of one topic, a printer that prints the label alone,
  a search provider with four results for most topics, and five pages: \<open>r0\<close> has text and
  no title element, \<open>r1\<close> answers 404, \<open>r2\<close> and \<open>r3\<close> have a title and text, \<open>r4\<close> has a
  title element without a string.
\<close>

definition char_tokens :: "model \<Rightarrow> string \<Rightarrow> nat list" where
  "char_tokens m t = map of_char t"

definition sample_parser :: "string \<Rightarrow> soup" where
  "sample_parser c =
     (if c = ''body text'' then \<lparr>stripped_strings = [''body'', ''text''], title = None\<rparr>
      else if c = ''Two: second page'' then
        \<lparr>stripped_strings = [''Two'', ''second page''], title = Some (Some ''Two'')\<rparr>
      else if c = ''Three: third page'' then
        \<lparr>stripped_strings = [''Three'', ''third page''], title = Some (Some ''Three'')\<rparr>
      else if c = ''untitled'' then
        \<lparr>stripped_strings = [''some text''], title = Some None\<rparr>
      else \<lparr>stripped_strings = [], title = None\<rparr>)"

definition sample_get :: "string \<Rightarrow> error + response" where
  "sample_get url =
     (if url = ''r0'' then Inr \<lparr>status_code = 200, content = ''body text''\<rparr>
      else if url = ''r1'' then Inr \<lparr>status_code = 404, content = []\<rparr>
      else if url = ''r2'' then Inr \<lparr>status_code = 200, content = ''Two: second page''\<rparr>
      else if url = ''r3'' then Inr \<lparr>status_code = 200, content = ''Three: third page''\<rparr>
      else if url = ''r4'' then Inr \<lparr>status_code = 200, content = ''untitled''\<rparr>
      else Inl (Raised ''unreachable''))"

definition sample_ddg :: "string \<Rightarrow> error + string list" where
  "sample_ddg topic =
     (if topic = ''nothing'' then Inr []
      else if topic = ''untitled'' then Inr [''r4'']
      else Inr [''r0'', ''r1'', ''r2'', ''r3''])"

definition sample_world :: world where
  "sample_world = \<lparr>encoding_for_model = char_tokens,
     chat_completion = (\<lambda>m p. Inr ''ok''),
     ddg = sample_ddg,
     requests_get = sample_get,
     html_parser = sample_parser,
     json_loads = (\<lambda>t. Inr [t]),
     today = ''Monday, May 01, 2023'',
     pprint = (\<lambda>(label, ls). label)\<rparr>"

definition failing_world :: world where
  "failing_world = sample_world\<lparr>chat_completion := (\<lambda>m p. Inl (Raised ''service unavailable''))\<rparr>"

text \<open>
  A completion service that answers a prompt with everything after its first line: asked to
  summarize, it returns the passage as it is.
\<close>

definition echo_world :: world where
  "echo_world = sample_world\<lparr>chat_completion := (\<lambda>m p. Inr (tl (dropWhile (\<lambda>c. c \<noteq> nl) p)))\<rparr>"

text \<open>The topic lists that the completion service may answer with.\<close>

definition unresolved_world :: world where
  "unresolved_world = sample_world\<lparr>json_loads := (\<lambda>t. Inr [''A'', ''nothing'', ''C''])\<rparr>"

definition untitled_world :: world where
  "untitled_world = sample_world\<lparr>json_loads := (\<lambda>t. Inr [''untitled''])\<rparr>"

definition sample_args :: args where
  "sample_args = \<lparr>gpt4 = False, verbose = False, question = ''What year did the Berlin Wall fall?''\<rparr>"

definition two_topics :: background where
  "two_topics = [(''A'', Some (replicate 1500 CHR ''a'')), (''B'', Some (replicate 1500 CHR ''b''))]"

definition sample_question :: string where
  "sample_question = ''What year did the Berlin Wall fall?''"

abbreviation empty_start :: state where
  "empty_start \<equiv> start Map.empty Map.empty Map.empty"

section \<open>Token Accountant: the estimate\<close>

text \<open>
  C7: for every text, the estimate of the Token Accountant is exactly twice the number of
  tokens that the tokenizer of the active model produces for it.
\<close>

theorem token_count_doubles_tokenizer:
  "token_count w m text = 2 * length (encoding_for_model w m text)"
  by (simp add: token_count_def)

section \<open>Truncation\<close>

lemma cut_prefix: "prefix (cut_text t) t"
  by (simp add: cut_text_def take_is_prefix)

lemma cut_length: "t \<noteq> [] \<Longrightarrow> length (cut_text t) < length t"
  by (cases t) (simp_all add: cut_text_def)

lemma cut_funpow_prefix: "prefix ((cut_text ^^ k) t) t"
proof (induction k)
  case 0
  show ?case by simp
next
  case (Suc k)
  have "prefix (cut_text ((cut_text ^^ k) t)) ((cut_text ^^ k) t)" by (rule cut_prefix)
  with Suc show ?case by (auto intro: prefix_order.trans)
qed

lemma cut_funpow_Suc:
  "(cut_text ^^ Suc j) t = take (9 * length ((cut_text ^^ j) t) div 10) ((cut_text ^^ j) t)"
  by (simp add: cut_text_def)

lemma cut_funpow_Suc_length:
  "length ((cut_text ^^ Suc j) t) = 9 * length ((cut_text ^^ j) t) div 10"
proof -
  have "9 * length ((cut_text ^^ j) t) div 10 \<le> length ((cut_text ^^ j) t)" by arith
  then show ?thesis by (simp add: cut_text_def min_def)
qed

lemma shorten_text_steps:
  assumes e: "encoding_for_model w m [] = []"
  shows "\<exists>k\<le>length t. shorten_text w m t = Some ((cut_text ^^ k) t)
           \<and> (\<forall>j<k. max_token_count m < token_count w m ((cut_text ^^ j) t)
                    \<and> length ((cut_text ^^ Suc j) t) < length ((cut_text ^^ j) t))
           \<and> token_count w m ((cut_text ^^ k) t) \<le> max_token_count m"
proof (induction t rule: length_induct)
  case (1 t)
  show ?case
  proof (cases "max_token_count m < token_count w m t")
    case False
    then have "shorten_text w m t = Some t" by (subst shorten_text.simps) simp
    with False show ?thesis by (intro exI[of _ 0]) simp
  next
    case True
    with e have ne: "t \<noteq> []" by (auto simp: token_count_def)
    then have lt: "length (cut_text t) < length t" by (rule cut_length)
    with 1 obtain k where k: "k \<le> length (cut_text t)"
      "shorten_text w m (cut_text t) = Some ((cut_text ^^ k) (cut_text t))"
      "\<forall>j<k. max_token_count m < token_count w m ((cut_text ^^ j) (cut_text t))
          \<and> length ((cut_text ^^ Suc j) (cut_text t)) < length ((cut_text ^^ j) (cut_text t))"
      "token_count w m ((cut_text ^^ k) (cut_text t)) \<le> max_token_count m"
      by blast
    have sw: "\<And>j. (cut_text ^^ j) (cut_text t) = (cut_text ^^ Suc j) t" by (simp add: funpow_swap1)
    have st: "shorten_text w m t = Some ((cut_text ^^ Suc k) t)"
      using True k(2) by (subst shorten_text.simps) (simp add: funpow_swap1)
    have steps: "\<forall>j<Suc k. max_token_count m < token_count w m ((cut_text ^^ j) t)
          \<and> length ((cut_text ^^ Suc j) t) < length ((cut_text ^^ j) t)"
    proof (intro allI impI)
      fix j assume "j < Suc k"
      show "max_token_count m < token_count w m ((cut_text ^^ j) t)
          \<and> length ((cut_text ^^ Suc j) t) < length ((cut_text ^^ j) t)"
      proof (cases j)
        case 0
        with True lt show ?thesis by simp
      next
        case (Suc i)
        with \<open>j < Suc k\<close> have "i < k" by simp
        with k(3) have "max_token_count m < token_count w m ((cut_text ^^ i) (cut_text t))
          \<and> length ((cut_text ^^ Suc i) (cut_text t)) < length ((cut_text ^^ i) (cut_text t))" by blast
        then show ?thesis unfolding sw Suc .
      qed
    qed
    have "Suc k \<le> length t" using k(1) lt by simp
    moreover have "token_count w m ((cut_text ^^ Suc k) t) \<le> max_token_count m"
      using k(4) unfolding sw .
    ultimately show ?thesis using st steps by blast
  qed
qed

lemma shorten_loop_result:
  assumes e: "encoding_for_model w m [] = []"
  shows "distinct keys \<Longrightarrow> set keys \<subseteq> fst ` set bg \<Longrightarrow>
     \<exists>bg'. shorten_loop w m keys bg = Some (Inr bg') \<and> map fst bg' = map fst bg
         \<and> (\<forall>k. k \<notin> set keys \<longrightarrow> map_of bg' k = map_of bg k)
         \<and> (\<forall>k\<in>set keys. \<forall>t. map_of bg k = Some (Some t) \<and> t \<noteq> [] \<longrightarrow>
               (\<exists>r. shorten_text w m t = Some r \<and> map_of bg' k = Some (Some r)))"
proof (induction keys arbitrary: bg)
  case Nil
  then show ?case by simp
next
  case (Cons subject rest)
  from Cons.prems have dr: "distinct rest" and nin: "subject \<notin> set rest"
    and sub: "set rest \<subseteq> fst ` set bg" and inb: "subject \<in> fst ` set bg" by auto
  from inb obtain v where v: "map_of bg subject = Some v"
    by (metis domD dom_map_of_conv_image_fst)
  show ?case
  proof (cases "\<exists>t. v = Some t \<and> t \<noteq> []")
    case False
    then have step: "shorten_loop w m (subject # rest) bg = shorten_loop w m rest bg"
      using v by (cases v) auto
    from Cons.IH[OF dr sub] obtain bg' where bg': "shorten_loop w m rest bg = Some (Inr bg')"
      "map fst bg' = map fst bg" "\<forall>k. k \<notin> set rest \<longrightarrow> map_of bg' k = map_of bg k"
      "\<forall>k\<in>set rest. \<forall>t. map_of bg k = Some (Some t) \<and> t \<noteq> [] \<longrightarrow>
               (\<exists>r. shorten_text w m t = Some r \<and> map_of bg' k = Some (Some r))"
      by blast
    have "\<forall>k\<in>set (subject # rest). \<forall>t. map_of bg k = Some (Some t) \<and> t \<noteq> [] \<longrightarrow>
               (\<exists>r. shorten_text w m t = Some r \<and> map_of bg' k = Some (Some r))"
      using bg'(4) False v by auto
    with step bg'(1,2,3) show ?thesis by auto
  next
    case True
    then obtain t where t: "v = Some t" "t \<noteq> []" by blast
    from shorten_text_steps[OF e, of t] obtain r where r: "shorten_text w m t = Some r"
      by blast
    let ?bg1 = "AList.update subject (Some r) bg"
    have step: "shorten_loop w m (subject # rest) bg = shorten_loop w m rest ?bg1"
      using v t r by simp
    have keys1: "map fst ?bg1 = map fst bg" using inb by (simp add: update_keys)
    then have sub1: "set rest \<subseteq> fst ` set ?bg1" using sub by (metis list.set_map)
    have m1: "map_of ?bg1 = (map_of bg)(subject \<mapsto> Some r)" by (rule update_conv')
    from Cons.IH[OF dr sub1] obtain bg' where bg': "shorten_loop w m rest ?bg1 = Some (Inr bg')"
      "map fst bg' = map fst ?bg1" "\<forall>k. k \<notin> set rest \<longrightarrow> map_of bg' k = map_of ?bg1 k"
      "\<forall>k\<in>set rest. \<forall>t. map_of ?bg1 k = Some (Some t) \<and> t \<noteq> [] \<longrightarrow>
               (\<exists>r. shorten_text w m t = Some r \<and> map_of bg' k = Some (Some r))"
      by blast
    have a: "\<forall>k. k \<notin> set (subject # rest) \<longrightarrow> map_of bg' k = map_of bg k"
      using bg'(3) m1 by simp
    have b: "\<forall>k\<in>set (subject # rest). \<forall>t. map_of bg k = Some (Some t) \<and> t \<noteq> [] \<longrightarrow>
               (\<exists>r. shorten_text w m t = Some r \<and> map_of bg' k = Some (Some r))"
    proof (intro ballI allI impI)
      fix k t' assume k: "k \<in> set (subject # rest)" and kt: "map_of bg k = Some (Some t') \<and> t' \<noteq> []"
      show "\<exists>r. shorten_text w m t' = Some r \<and> map_of bg' k = Some (Some r)"
      proof (cases "k = subject")
        case True
        with kt v t have "t' = t" by simp
        moreover have "map_of bg' subject = Some (Some r)" using bg'(3) nin m1 by simp
        ultimately show ?thesis using r True by simp
      next
        case False
        with k have "k \<in> set rest" by simp
        moreover have "map_of ?bg1 k = Some (Some t')" using False kt m1 by simp
        ultimately show ?thesis using bg'(4) kt by blast
      qed
    qed
    show ?thesis using step bg'(1,2) keys1 a b by auto
  qed
qed

text \<open>
  C4: for a topic whose text \<open>t\<close> has an estimate above the ceiling, the loop on that text
  returns after \<open>k\<close> passes, with \<open>k\<close> at least one and at most the length of the text, and
  \<open>shorten\<close> returns with the topic mapped to the text the loop has left. Every pass saw an
  estimate above the ceiling and replaced the text \<open>u\<close> it found by its first
  \<open>9 * length u div 10\<close> characters (nine tenths of the length, rounded down), which is
  strictly shorter; the text kept is a prefix of \<open>t\<close> with an estimate at or under the
  ceiling. The tokenizer is a function that gives the tokens of every text, and is required
  to produce no token for the empty text.
\<close>

theorem shorten_cuts_to_prefix_under_ceiling:
  assumes "encoding_for_model w m [] = []"
    and "distinct (map fst bg)"
    and "(subject, Some t) \<in> set bg"
    and "max_token_count m < token_count w m t"
  shows "\<exists>bg' k. shorten w m bg = Some (Inr bg') \<and> map fst bg' = map fst bg
           \<and> shorten_text w m t = Some ((cut_text ^^ k) t)
           \<and> map_of bg' subject = Some (Some ((cut_text ^^ k) t))
           \<and> 0 < k \<and> k \<le> length t
           \<and> (\<forall>j<k. max_token_count m < token_count w m ((cut_text ^^ j) t)
                    \<and> (cut_text ^^ Suc j) t
                        = take (9 * length ((cut_text ^^ j) t) div 10) ((cut_text ^^ j) t)
                    \<and> length ((cut_text ^^ Suc j) t) = 9 * length ((cut_text ^^ j) t) div 10
                    \<and> length ((cut_text ^^ Suc j) t) < length ((cut_text ^^ j) t))
           \<and> prefix ((cut_text ^^ k) t) t
           \<and> token_count w m ((cut_text ^^ k) t) \<le> max_token_count m"
proof -
  have ne: "t \<noteq> []" using assms(1,4) by (auto simp: token_count_def)
  have look: "map_of bg subject = Some (Some t)" using assms(2,3) by simp
  from shorten_loop_result[OF assms(1), of "map fst bg" bg] assms(2)
  obtain bg' where bg': "shorten w m bg = Some (Inr bg')" "map fst bg' = map fst bg"
    "\<forall>k\<in>set (map fst bg). \<forall>t. map_of bg k = Some (Some t) \<and> t \<noteq> [] \<longrightarrow>
               (\<exists>r. shorten_text w m t = Some r \<and> map_of bg' k = Some (Some r))"
    unfolding shorten_def by auto
  have "subject \<in> set (map fst bg)" using assms(3) by force
  with bg'(3) look ne obtain r where r: "shorten_text w m t = Some r"
    "map_of bg' subject = Some (Some r)" by blast
  from shorten_text_steps[OF assms(1), of t] obtain k where k: "k \<le> length t"
    "shorten_text w m t = Some ((cut_text ^^ k) t)"
    "\<forall>j<k. max_token_count m < token_count w m ((cut_text ^^ j) t)
          \<and> length ((cut_text ^^ Suc j) t) < length ((cut_text ^^ j) t)"
    "token_count w m ((cut_text ^^ k) t) \<le> max_token_count m" by blast
  have "k \<noteq> 0" using k(4) assms(4) by (cases k) auto
  then have "0 < k" by simp
  moreover have "map_of bg' subject = Some (Some ((cut_text ^^ k) t))" using r k(2) by simp
  moreover have "\<forall>j<k. max_token_count m < token_count w m ((cut_text ^^ j) t)
                    \<and> (cut_text ^^ Suc j) t
                        = take (9 * length ((cut_text ^^ j) t) div 10) ((cut_text ^^ j) t)
                    \<and> length ((cut_text ^^ Suc j) t) = 9 * length ((cut_text ^^ j) t) div 10
                    \<and> length ((cut_text ^^ Suc j) t) < length ((cut_text ^^ j) t)"
    using k(3) cut_funpow_Suc cut_funpow_Suc_length by blast
  ultimately show ?thesis using bg'(1,2) k(1,2,4) cut_funpow_prefix[of k t] by blast
qed

lemma sample_tokens_3000: "length (encoding_for_model sample_world GPT35Turbo (replicate 3000 CHR ''a'')) = 3000"
  by (simp add: sample_world_def char_tokens_def)

lemma sample_tokens_Nil: "encoding_for_model sample_world GPT35Turbo [] = []"
  by (simp add: sample_world_def char_tokens_def)

lemma shorten_text_sample:
  "shorten_text sample_world GPT35Turbo (replicate 3000 CHR ''a'') = Some (replicate 1968 CHR ''a'')"
proof -
  have tc: "\<And>n. token_count sample_world GPT35Turbo (replicate n CHR ''a'') = n * 2"
    by (simp add: token_count_def sample_world_def char_tokens_def)
  have ct: "\<And>n. cut_text (replicate n CHR ''a'') = replicate (9 * n div 10) CHR ''a''"
  proof -
    fix n :: nat
    have "9 * n div 10 \<le> n" by arith
    then show "cut_text (replicate n CHR ''a'') = replicate (9 * n div 10) CHR ''a''"
      by (simp add: cut_text_def min_def)
  qed
  have "shorten_text sample_world GPT35Turbo (replicate 1968 CHR ''a'') = Some (replicate 1968 CHR ''a'')"
    by (subst shorten_text.simps) (simp add: tc)
  then have "shorten_text sample_world GPT35Turbo (replicate 2187 CHR ''a'') = Some (replicate 1968 CHR ''a'')"
    by (subst shorten_text.simps) (simp add: tc ct)
  then have "shorten_text sample_world GPT35Turbo (replicate 2430 CHR ''a'') = Some (replicate 1968 CHR ''a'')"
    by (subst shorten_text.simps) (simp add: tc ct)
  then have "shorten_text sample_world GPT35Turbo (replicate 2700 CHR ''a'') = Some (replicate 1968 CHR ''a'')"
    by (subst shorten_text.simps) (simp add: tc ct)
  then show ?thesis
    by (subst shorten_text.simps) (simp add: tc ct)
qed

theorem shorten_cuts_witness:
  "shorten sample_world GPT35Turbo [(''A'', Some (replicate 3000 CHR ''a''))]
     = Some (Inr [(''A'', Some (replicate 1968 CHR ''a''))])
   \<and> (\<exists>bg' k. shorten sample_world GPT35Turbo [(''A'', Some (replicate 3000 CHR ''a''))] = Some (Inr bg')
      \<and> map fst bg' = [''A'']
      \<and> shorten_text sample_world GPT35Turbo (replicate 3000 CHR ''a'')
          = Some ((cut_text ^^ k) (replicate 3000 CHR ''a''))
      \<and> map_of bg' ''A'' = Some (Some ((cut_text ^^ k) (replicate 3000 CHR ''a'')))
      \<and> 0 < k \<and> k \<le> 3000
      \<and> (\<forall>j<k. 4097 < token_count sample_world GPT35Turbo ((cut_text ^^ j) (replicate 3000 CHR ''a''))
             \<and> (cut_text ^^ Suc j) (replicate 3000 CHR ''a'')
                 = take (9 * length ((cut_text ^^ j) (replicate 3000 CHR ''a'')) div 10)
                     ((cut_text ^^ j) (replicate 3000 CHR ''a''))
             \<and> length ((cut_text ^^ Suc j) (replicate 3000 CHR ''a''))
                 = 9 * length ((cut_text ^^ j) (replicate 3000 CHR ''a'')) div 10
             \<and> length ((cut_text ^^ Suc j) (replicate 3000 CHR ''a''))
                 < length ((cut_text ^^ j) (replicate 3000 CHR ''a'')))
      \<and> prefix ((cut_text ^^ k) (replicate 3000 CHR ''a'')) (replicate 3000 CHR ''a'')
      \<and> token_count sample_world GPT35Turbo ((cut_text ^^ k) (replicate 3000 CHR ''a'')) \<le> 4097)"
proof -
  have a: "max_token_count GPT35Turbo < token_count sample_world GPT35Turbo (replicate 3000 CHR ''a'')"
    by (simp add: token_count_def sample_tokens_3000)
  have b: "distinct (map fst [(''A'', Some (replicate 3000 CHR ''a''))])" by simp
  have c: "(''A'', Some (replicate 3000 CHR ''a'')) \<in> set [(''A'', Some (replicate 3000 CHR ''a''))]" by simp
  have d: "shorten sample_world GPT35Turbo [(''A'', Some (replicate 3000 CHR ''a''))]
     = Some (Inr [(''A'', Some (replicate 1968 CHR ''a''))])"
    by (simp add: shorten_def shorten_text_sample)
  from shorten_cuts_to_prefix_under_ceiling[OF sample_tokens_Nil b c a]
  have "\<exists>bg' k. shorten sample_world GPT35Turbo [(''A'', Some (replicate 3000 CHR ''a''))] = Some (Inr bg')
      \<and> map fst bg' = [''A'']
      \<and> shorten_text sample_world GPT35Turbo (replicate 3000 CHR ''a'')
          = Some ((cut_text ^^ k) (replicate 3000 CHR ''a''))
      \<and> map_of bg' ''A'' = Some (Some ((cut_text ^^ k) (replicate 3000 CHR ''a'')))
      \<and> 0 < k \<and> k \<le> 3000
      \<and> (\<forall>j<k. 4097 < token_count sample_world GPT35Turbo ((cut_text ^^ j) (replicate 3000 CHR ''a''))
             \<and> (cut_text ^^ Suc j) (replicate 3000 CHR ''a'')
                 = take (9 * length ((cut_text ^^ j) (replicate 3000 CHR ''a'')) div 10)
                     ((cut_text ^^ j) (replicate 3000 CHR ''a''))
             \<and> length ((cut_text ^^ Suc j) (replicate 3000 CHR ''a''))
                 = 9 * length ((cut_text ^^ j) (replicate 3000 CHR ''a'')) div 10
             \<and> length ((cut_text ^^ Suc j) (replicate 3000 CHR ''a''))
                 < length ((cut_text ^^ j) (replicate 3000 CHR ''a'')))
      \<and> prefix ((cut_text ^^ k) (replicate 3000 CHR ''a'')) (replicate 3000 CHR ''a'')
      \<and> token_count sample_world GPT35Turbo ((cut_text ^^ k) (replicate 3000 CHR ''a'')) \<le> 4097"
    by (simp only: list.map fst_conv length_replicate max_token_count.simps)
  with d show ?thesis by (rule conjI)
qed

section \<open>Memoized calls\<close>

lemma memory_cache_hit: "get s a = Some r \<Longrightarrow> memory_cache get put f a s = (Inr r, s)"
  by (simp add: memory_cache_def)

lemma memory_cache_cases:
  assumes "memory_cache get put f a s = (res, s1)"
  obtains (hit) r where "get s a = Some r" "res = Inr r" "s1 = s"
  | (raised) e where "get s a = None" "f a s = (Inl e, s1)" "res = Inl e"
  | (stored) r sb where "get s a = None" "f a s = (Inr r, sb)" "res = Inr r"
      "s1 = put ((get sb)(a \<mapsto> r)) sb"
  using assms
  by (auto simp: memory_cache_def split: option.splits prod.splits sum.splits)

lemma memory_cache_raised:
  "memory_cache get put f a s = (Inl e, s1) \<Longrightarrow> get s a = None \<and> f a s = (Inl e, s1)"
  by (erule memory_cache_cases) simp_all

text \<open>
  C5: the layer stores a result, so the claim is about a call that returns one (a call in
  which the wrapped operation raises returns no result and stores nothing, as the contract of
  the layer says). When a call of the memoized layer returns a result, the result is stored
  under its key; the next call with the same key, and every call after it, returns that
  result and leaves the state as it is, so the wrapped operation does not run again; and the
  first call itself ran the operation once and stored what it returned if the key was not
  stored before, and did not run it at all if the key was stored.
\<close>

theorem memory_cache_second_call_returns_stored:
  assumes lens: "\<And>c t. get (put c t) = c"
    and first: "memory_cache get put f a s = (Inr r, s1)"
  shows "get s1 a = Some r \<and> memory_cache get put f a s1 = (Inr r, s1)
         \<and> (\<forall>n. ((\<lambda>t. snd (memory_cache get put f a t)) ^^ n) s1 = s1)
         \<and> (get s a = None \<longrightarrow> (\<exists>sb. f a s = (Inr r, sb) \<and> s1 = put ((get sb)(a \<mapsto> r)) sb))
         \<and> (get s a \<noteq> None \<longrightarrow> get s a = Some r \<and> s1 = s)"
proof -
  have st: "get s1 a = Some r"
    using first by (cases rule: memory_cache_cases) (auto simp: lens)
  then have again: "memory_cache get put f a s1 = (Inr r, s1)" by (rule memory_cache_hit)
  have later: "((\<lambda>t. snd (memory_cache get put f a t)) ^^ n) s1 = s1" for n
    by (induction n) (simp_all add: again)
  have miss: "get s a = None \<longrightarrow> (\<exists>sb. f a s = (Inr r, sb) \<and> s1 = put ((get sb)(a \<mapsto> r)) sb)"
    using first by (cases rule: memory_cache_cases) auto
  have hit: "get s a \<noteq> None \<longrightarrow> get s a = Some r \<and> s1 = s"
    using first by (cases rule: memory_cache_cases) auto
  from st again later miss hit show ?thesis by blast
qed

section \<open>The language-model call\<close>

lemma gpt_body_cases:
  assumes "gpt_body w am (prompt, mo) s = (res, s1)"
  obtains (short) "length prompt \<le> 25" "res = Inl AssertionError" "s1 = s"
  | (sent) "25 < length prompt"
      "s1 = s\<lparr>gpt_query_count := gpt_query_count s + 1,
               completions := completions s @ [(case mo of Some x \<Rightarrow> x | None \<Rightarrow> am, prompt)]\<rparr>"
      "chat_completion w (case mo of Some x \<Rightarrow> x | None \<Rightarrow> am) prompt = res"
  using assms
  by (auto simp: gpt_body_def Let_def split: if_splits sum.splits)

lemma gpt_cases:
  assumes "gpt w am prompt mo s = (res, s1)"
  obtains (hit) r where "gpt_store s (prompt, mo) = Some r" "res = Inr r" "s1 = s"
  | (short) "gpt_store s (prompt, mo) = None" "length prompt \<le> 25" "res = Inl AssertionError" "s1 = s"
  | (raised) e where "gpt_store s (prompt, mo) = None" "25 < length prompt" "res = Inl e"
      "chat_completion w (case mo of Some x \<Rightarrow> x | None \<Rightarrow> am) prompt = Inl e"
      "s1 = s\<lparr>gpt_query_count := gpt_query_count s + 1,
               completions := completions s @ [(case mo of Some x \<Rightarrow> x | None \<Rightarrow> am, prompt)]\<rparr>"
  | (stored) r where "gpt_store s (prompt, mo) = None" "25 < length prompt" "res = Inr r"
      "chat_completion w (case mo of Some x \<Rightarrow> x | None \<Rightarrow> am) prompt = Inr r"
      "s1 = s\<lparr>gpt_query_count := gpt_query_count s + 1,
               completions := completions s @ [(case mo of Some x \<Rightarrow> x | None \<Rightarrow> am, prompt)],
               gpt_store := (gpt_store s)((prompt, mo) \<mapsto> r)\<rparr>"
proof -
  from assms have mc: "memory_cache gpt_store (\<lambda>c s. s\<lparr>gpt_store := c\<rparr>) (gpt_body w am) (prompt, mo) s = (res, s1)"
    by (simp add: gpt_def)
  show ?thesis using mc
  proof (cases rule: memory_cache_cases)
    case (hit r) then show ?thesis using that(1) by simp
  next
    case (raised e)
    from raised(2) show ?thesis
      by (cases rule: gpt_body_cases) (use raised that in auto)
  next
    case (stored r sb)
    from stored(2) show ?thesis
      by (cases rule: gpt_body_cases) (use stored that in auto)
  qed
qed

lemma gpt_frame:
  assumes "gpt w am prompt mo s = (res, s1)"
  shows "ddg_store s1 = ddg_store s" "fetch_store s1 = fetch_store s" "fetched s1 = fetched s"
    "stdout s1 = stdout s"
    "gpt_query_count s1 + length (completions s) = gpt_query_count s + length (completions s1)"
    "gpt_store s k = Some v \<Longrightarrow> gpt_store s1 k = Some v"
    "res = Inr r \<Longrightarrow> gpt_store s1 (prompt, mo) = Some r"
    "\<forall>k\<in>dom (gpt_store s). 25 < length (fst k) \<Longrightarrow> \<forall>k\<in>dom (gpt_store s1). 25 < length (fst k)"
  using assms by (cases rule: gpt_cases; auto)+

text \<open>
  C8: for a prompt of at most 25 characters the body of \<open>gpt\<close> raises \<open>AssertionError\<close> and
  leaves the state as it is: no request is sent and the counter is not incremented. So does
  the decorated \<open>gpt\<close>, in every state whose store holds only keys that \<open>gpt\<close> itself
  stored (prompts of more than 25 characters).
\<close>

theorem gpt_short_prompt_fails:
  assumes "length prompt \<le> 25"
  shows "gpt_body w am (prompt, mo) s = (Inl AssertionError, s)
       \<and> ((\<forall>k\<in>dom (gpt_store s). 25 < length (fst k)) \<longrightarrow>
            gpt w am prompt mo s = (Inl AssertionError, s))"
proof -
  have b: "gpt_body w am (prompt, mo) s = (Inl AssertionError, s)"
    using assms by (simp add: gpt_body_def)
  have "gpt w am prompt mo s = (Inl AssertionError, s)"
    if inv: "\<forall>k\<in>dom (gpt_store s). 25 < length (fst k)"
  proof -
    have "gpt_store s (prompt, mo) = None"
    proof (rule ccontr)
      assume "gpt_store s (prompt, mo) \<noteq> None"
      then have "(prompt, mo) \<in> dom (gpt_store s)" by auto
      with inv have "25 < length (fst (prompt, mo))" by (rule bspec)
      then have "25 < length prompt" by simp
      with assms show False by simp
    qed
    then show ?thesis using b by (simp add: gpt_def memory_cache_def)
  qed
  with b show ?thesis by blast
qed

theorem gpt_short_prompt_witness:
  "gpt_body sample_world GPT35Turbo (''hi'', None) empty_start = (Inl AssertionError, empty_start)
   \<and> gpt sample_world GPT35Turbo ''hi'' None empty_start = (Inl AssertionError, empty_start)"
  using gpt_short_prompt_fails[of "''hi''" sample_world GPT35Turbo None empty_start]
  by (simp add: start_def)

lemma gpt_sample_first:
  "gpt sample_world GPT35Turbo sample_question None empty_start =
     (Inr ''ok'', empty_start\<lparr>gpt_query_count := 1, completions := [(GPT35Turbo, sample_question)],
                    gpt_store := [(sample_question, None) \<mapsto> ''ok'']\<rparr>)"
  by (simp add: gpt_def memory_cache_def gpt_body_def sample_world_def sample_question_def start_def)

theorem memory_cache_second_call_witness:
  "gpt sample_world GPT35Turbo sample_question None
      (empty_start\<lparr>gpt_query_count := 1, completions := [(GPT35Turbo, sample_question)],
                    gpt_store := [(sample_question, None) \<mapsto> ''ok'']\<rparr>) =
     (Inr ''ok'', empty_start\<lparr>gpt_query_count := 1, completions := [(GPT35Turbo, sample_question)],
                    gpt_store := [(sample_question, None) \<mapsto> ''ok'']\<rparr>)
   \<and> gpt_query_count (snd (gpt sample_world GPT35Turbo sample_question None
        (snd (gpt sample_world GPT35Turbo sample_question None empty_start)))) = 1
   \<and> completions (snd (gpt sample_world GPT35Turbo sample_question None
        (snd (gpt sample_world GPT35Turbo sample_question None empty_start))))
       = [(GPT35Turbo, sample_question)]"
proof -
  let ?s1 = "empty_start\<lparr>gpt_query_count := 1, completions := [(GPT35Turbo, sample_question)],
                    gpt_store := [(sample_question, None) \<mapsto> ''ok'']\<rparr>"
  have lens: "\<And>c t. gpt_store (t\<lparr>gpt_store := c\<rparr>) = c" by simp
  have first: "memory_cache gpt_store (\<lambda>c s. s\<lparr>gpt_store := c\<rparr>)
      (gpt_body sample_world GPT35Turbo) (sample_question, None) empty_start = (Inr ''ok'', ?s1)"
    using gpt_sample_first by (simp add: gpt_def)
  from memory_cache_second_call_returns_stored[of gpt_store "\<lambda>c s. s\<lparr>gpt_store := c\<rparr>", OF lens first]
  have again: "gpt sample_world GPT35Turbo sample_question None ?s1 = (Inr ''ok'', ?s1)"
    by (simp add: gpt_def)
  have twice: "snd (gpt sample_world GPT35Turbo sample_question None
        (snd (gpt sample_world GPT35Turbo sample_question None empty_start))) = ?s1"
    by (simp only: gpt_sample_first snd_conv again)
  show ?thesis by (simp only: again twice) simp
qed

text \<open>
  A call that raises stores nothing: when the completion service raises, a second call of
  \<open>gpt\<close> with the same arguments runs the body again, and after the two calls the counter is
  at 2 and two requests have been sent.
\<close>

lemma failed_call_runs_again:
  "gpt_query_count (snd (gpt failing_world GPT35Turbo sample_question None
      (snd (gpt failing_world GPT35Turbo sample_question None empty_start)))) = 2
   \<and> completions (snd (gpt failing_world GPT35Turbo sample_question None
      (snd (gpt failing_world GPT35Turbo sample_question None empty_start)))) =
      [(GPT35Turbo, sample_question), (GPT35Turbo, sample_question)]"
  by (simp add: gpt_def memory_cache_def gpt_body_def failing_world_def sample_world_def
      sample_question_def start_def)

section \<open>The resolver: first result with text\<close>

lemma fetch_body_frame:
  "fst (fetch_body w url s) = Inr (page_info w url)"
  "fetched (snd (fetch_body w url s)) = fetched s @ [url]"
  "fetch_store (snd (fetch_body w url s)) = fetch_store s"
  "gpt_store (snd (fetch_body w url s)) = gpt_store s"
  "ddg_store (snd (fetch_body w url s)) = ddg_store s"
  "gpt_query_count (snd (fetch_body w url s)) = gpt_query_count s"
  "completions (snd (fetch_body w url s)) = completions s"
  "prefix (stdout s) (stdout (snd (fetch_body w url s)))"
  by (auto simp: fetch_body_def page_info_def Let_def print_def split: sum.splits option.splits)

lemma fetch_result:
  assumes "fetch_url_and_extract_info w url s = (res, s1)"
  shows "res = Inr (seen w s url)"
    and "seen w s1 = seen w s"
    and "fetched s1 = fetched s \<or> fetched s1 = fetched s @ [url]"
    and "gpt_store s1 = gpt_store s" and "ddg_store s1 = ddg_store s"
    and "gpt_query_count s1 = gpt_query_count s" and "completions s1 = completions s"
    and "prefix (stdout s) (stdout s1)"
proof -
  from assms have mc: "memory_cache fetch_store (\<lambda>c s. s\<lparr>fetch_store := c\<rparr>) (fetch_body w) url s = (res, s1)"
    by (simp add: fetch_url_and_extract_info_def)
  have "res = Inr (seen w s url) \<and> seen w s1 = seen w s
      \<and> (fetched s1 = fetched s \<or> fetched s1 = fetched s @ [url])
      \<and> gpt_store s1 = gpt_store s \<and> ddg_store s1 = ddg_store s
      \<and> gpt_query_count s1 = gpt_query_count s \<and> completions s1 = completions s
      \<and> prefix (stdout s) (stdout s1)"
    using mc
  proof (cases rule: memory_cache_cases)
    case (hit r)
    then show ?thesis by (simp add: seen_def)
  next
    case (raised e)
    then show ?thesis using fetch_body_frame(1)[of w url s] by simp
  next
    case (stored r sb)
    have sb: "sb = snd (fetch_body w url s)" and r: "r = page_info w url"
      using stored(2) fetch_body_frame(1)[of w url s] by simp_all
    have "seen w s1 = seen w s"
      using stored(1,4) by (auto simp: seen_def sb r fetch_body_frame fun_eq_iff)
    then show ?thesis
      using stored(1,3,4) by (simp add: sb r fetch_body_frame seen_def)
  qed
  then show "res = Inr (seen w s url)"
    and "seen w s1 = seen w s"
    and "fetched s1 = fetched s \<or> fetched s1 = fetched s @ [url]"
    and "gpt_store s1 = gpt_store s" and "ddg_store s1 = ddg_store s"
    and "gpt_query_count s1 = gpt_query_count s" and "completions s1 = completions s"
    and "prefix (stdout s) (stdout s1)" by simp_all
qed

lemma verbose_print_frame:
  "seen w (verbose_print a line s) = seen w s"
  "fetched (verbose_print a line s) = fetched s"
  "fetch_store (verbose_print a line s) = fetch_store s"
  "gpt_store (verbose_print a line s) = gpt_store s"
  "ddg_store (verbose_print a line s) = ddg_store s"
  "gpt_query_count (verbose_print a line s) = gpt_query_count s"
  "completions (verbose_print a line s) = completions s"
  "prefix (stdout s) (stdout (verbose_print a line s))"
  by (simp_all add: verbose_print_def print_def seen_def fun_eq_iff)

lemma first_hit_result:
  "first_hit w a results s = (res, s1) \<Longrightarrow>
     res = Inr (first_nonempty (map (\<lambda>h. (h, seen w s h)) results))
     \<and> seen w s1 = seen w s
     \<and> (\<exists>fs. fetched s1 = fetched s @ fs
            \<and> set fs \<subseteq> set (takeWhile (\<lambda>h. \<not> nonempty (seen w s h)) results
                              @ take 1 (dropWhile (\<lambda>h. \<not> nonempty (seen w s h)) results)))
     \<and> gpt_store s1 = gpt_store s \<and> ddg_store s1 = ddg_store s
     \<and> gpt_query_count s1 = gpt_query_count s \<and> completions s1 = completions s
     \<and> prefix (stdout s) (stdout s1)"
proof (induction results arbitrary: s)
  case Nil
  then show ?case by simp
next
  case (Cons href rest)
  let ?sp = "verbose_print a (''  Fetching '' @ href) s"
  obtain r0 s' where f: "fetch_url_and_extract_info w href ?sp = (r0, s')"
    by (cases "fetch_url_and_extract_info w href ?sp")
  have "prefix (stdout s) (stdout s')"
    using verbose_print_frame(8)[of s a "''  Fetching '' @ href"] fetch_result(8)[OF f]
    by (rule prefix_order.trans)
  with fetch_result[OF f]
  have fr: "r0 = Inr (seen w s href)" "seen w s' = seen w s"
    "fetched s' = fetched s \<or> fetched s' = fetched s @ [href]"
    "gpt_store s' = gpt_store s" "ddg_store s' = ddg_store s"
    "gpt_query_count s' = gpt_query_count s" "completions s' = completions s"
    "prefix (stdout s) (stdout s')"
    by (simp_all add: verbose_print_frame)
  obtain t c where p: "seen w s href = (t, c)" by (cases "seen w s href")
  have fs0: "\<exists>fs. fetched s' = fetched s @ fs \<and> set fs \<subseteq> {href}"
    using fr(3) by auto
  show ?case
  proof (cases "nonempty (t, c)")
    case True
    then obtain tx where c: "c = Some tx" "tx \<noteq> []" by (cases c) auto
    have "first_hit w a (href # rest) s = (Inr (Some (href, t, tx)), s')"
      using f fr(1) p c by simp
    with Cons.prems have "res = Inr (Some (href, t, tx))" "s1 = s'" by simp_all
    then show ?thesis using fr p c fs0 by auto
  next
    case False
    have "first_hit w a (href # rest) s = first_hit w a rest s'"
      using f fr(1) p False by (cases c) auto
    with Cons.prems have "first_hit w a rest s' = (res, s1)" by simp
    from Cons.IH[OF this] have ih: "res = Inr (first_nonempty (map (\<lambda>h. (h, seen w s h)) rest))"
      "seen w s1 = seen w s"
      "\<exists>fs. fetched s1 = fetched s' @ fs
            \<and> set fs \<subseteq> set (takeWhile (\<lambda>h. \<not> nonempty (seen w s h)) rest
                              @ take 1 (dropWhile (\<lambda>h. \<not> nonempty (seen w s h)) rest))"
      "gpt_store s1 = gpt_store s" "ddg_store s1 = ddg_store s"
      "gpt_query_count s1 = gpt_query_count s" "completions s1 = completions s"
      "prefix (stdout s') (stdout s1)"
      using fr by simp_all
    have a: "first_nonempty (map (\<lambda>h. (h, seen w s h)) (href # rest))
        = first_nonempty (map (\<lambda>h. (h, seen w s h)) rest)"
      using p False by (cases c) auto
    from ih(3) fs0 obtain fs fs' where "fetched s1 = fetched s @ (fs' @ fs)" "set fs' \<subseteq> {href}"
      "set fs \<subseteq> set (takeWhile (\<lambda>h. \<not> nonempty (seen w s h)) rest
                              @ take 1 (dropWhile (\<lambda>h. \<not> nonempty (seen w s h)) rest))"
      by auto
    then have b: "\<exists>fs. fetched s1 = fetched s @ fs
            \<and> set fs \<subseteq> set (takeWhile (\<lambda>h. \<not> nonempty (seen w s h)) (href # rest)
                              @ take 1 (dropWhile (\<lambda>h. \<not> nonempty (seen w s h)) (href # rest)))"
      using p False by (intro exI[of _ "fs' @ fs"]) auto
    have "prefix (stdout s) (stdout s1)" using fr(8) ih(8) by (rule prefix_order.trans)
    then show ?thesis using a b ih by simp
  qed
qed

lemma first_hit_after_print:
  assumes "first_hit w a results (verbose_print a line s) = (res, s1)"
  shows "res = Inr (first_nonempty (map (\<lambda>h. (h, seen w s h)) results))"
    and "\<exists>fs. fetched s1 = fetched s @ fs
            \<and> set fs \<subseteq> set (takeWhile (\<lambda>h. \<not> nonempty (seen w s h)) results
                              @ take 1 (dropWhile (\<lambda>h. \<not> nonempty (seen w s h)) results))"
    and "gpt_store s1 = gpt_store s" and "ddg_store s1 = ddg_store s"
    and "gpt_query_count s1 = gpt_query_count s" and "completions s1 = completions s"
    and "prefix (stdout s) (stdout s1)"
proof -
  note fr = first_hit_result[OF assms]
  from fr show "res = Inr (first_nonempty (map (\<lambda>h. (h, seen w s h)) results))"
    by (simp add: verbose_print_frame)
  from fr show "\<exists>fs. fetched s1 = fetched s @ fs
            \<and> set fs \<subseteq> set (takeWhile (\<lambda>h. \<not> nonempty (seen w s h)) results
                              @ take 1 (dropWhile (\<lambda>h. \<not> nonempty (seen w s h)) results))"
    by (simp add: verbose_print_frame)
  from fr show "gpt_store s1 = gpt_store s" "ddg_store s1 = ddg_store s"
    "gpt_query_count s1 = gpt_query_count s" "completions s1 = completions s"
    by (simp_all add: verbose_print_frame)
  from fr have "prefix (stdout (verbose_print a line s)) (stdout s1)" by simp
  with verbose_print_frame(8)[of s a line] show "prefix (stdout s) (stdout s1)"
    by (rule prefix_order.trans)
qed

lemma ddg_top_hit_body_result:
  assumes "ddg_top_hit_body w a topic s = (res, sa)"
  shows "(\<exists>e. ddg w topic = Inl e \<and> res = Inl e
            \<and> sa = verbose_print a (''Search DDG for: '' @ topic) s)
       \<or> (\<exists>results. ddg w topic = Inr results
             \<and> first_hit w a results (verbose_print a (''Search DDG for: '' @ topic) s) = (res, sa)
             \<and> res = Inr (first_nonempty (map (\<lambda>h. (h, seen w s h)) results)))"
proof (cases "ddg w topic")
  case (Inl e)
  with assms show ?thesis by (simp add: ddg_top_hit_body_def)
next
  case (Inr results)
  with assms
  have fh: "first_hit w a results (verbose_print a (''Search DDG for: '' @ topic) s) = (res, sa)"
    by (simp add: ddg_top_hit_body_def)
  from first_hit_result[OF fh] have "res = Inr (first_nonempty (map (\<lambda>h. (h, seen w s h)) results))"
    by (simp add: verbose_print_frame)
  with Inr fh show ?thesis by simp
qed

lemma ddg_top_hit_cases:
  assumes "ddg_top_hit w a topic s = (res, s1)"
  obtains (hit) r where "ddg_store s topic = Some r" "res = Inr r" "s1 = s"
  | (raised) e where "ddg_store s topic = None" "ddg w topic = Inl e" "res = Inl e"
      "s1 = verbose_print a (''Search DDG for: '' @ topic) s"
  | (stored) results sa where "ddg_store s topic = None" "ddg w topic = Inr results"
      "first_hit w a results (verbose_print a (''Search DDG for: '' @ topic) s) = (res, sa)"
      "res = Inr (first_nonempty (map (\<lambda>h. (h, seen w s h)) results))"
      "s1 = sa\<lparr>ddg_store := (ddg_store s)(topic \<mapsto> first_nonempty (map (\<lambda>h. (h, seen w s h)) results))\<rparr>"
proof -
  from assms have mc: "memory_cache ddg_store (\<lambda>c s. s\<lparr>ddg_store := c\<rparr>) (ddg_top_hit_body w a) topic s = (res, s1)"
    by (simp add: ddg_top_hit_def)
  show ?thesis using mc
  proof (cases rule: memory_cache_cases)
    case (hit r)
    then show ?thesis by (rule that(1))
  next
    case (raised e)
    from ddg_top_hit_body_result[OF raised(2)] raised(3)
    have "ddg w topic = Inl e \<and> s1 = verbose_print a (''Search DDG for: '' @ topic) s" by auto
    then show ?thesis using raised(1,3) by (intro that(2)[of e]) simp_all
  next
    case (stored r sa)
    from ddg_top_hit_body_result[OF stored(2)]
    obtain results where rs: "ddg w topic = Inr results"
      "first_hit w a results (verbose_print a (''Search DDG for: '' @ topic) s) = (Inr r, sa)"
      "r = first_nonempty (map (\<lambda>h. (h, seen w s h)) results)" by auto
    from first_hit_after_print(4)[OF rs(2)] have ds: "ddg_store sa = ddg_store s" .
    show ?thesis
    proof (rule that(3)[of results sa])
      show "ddg_store s topic = None" by (rule stored(1))
      show "ddg w topic = Inr results" by (rule rs(1))
      show "first_hit w a results (verbose_print a (''Search DDG for: '' @ topic) s) = (res, sa)"
        using rs(2) stored(3) by simp
      show "res = Inr (first_nonempty (map (\<lambda>h. (h, seen w s h)) results))"
        using rs(3) stored(3) by simp
      show "s1 = sa\<lparr>ddg_store := (ddg_store s)(topic \<mapsto> first_nonempty (map (\<lambda>h. (h, seen w s h)) results))\<rparr>"
        using stored(4) rs(3) ds by simp
    qed
  qed
qed

lemma ddg_top_hit_frame:
  assumes "ddg_top_hit w a topic s = (res, s1)"
  shows "gpt_store s1 = gpt_store s" "gpt_query_count s1 = gpt_query_count s"
    "completions s1 = completions s" "prefix (stdout s) (stdout s1)"
    "ddg_store s k = Some v \<Longrightarrow> ddg_store s1 k = Some v"
    "res = Inr r \<Longrightarrow> ddg_store s1 topic = Some r"
proof -
  have "gpt_store s1 = gpt_store s \<and> gpt_query_count s1 = gpt_query_count s
      \<and> completions s1 = completions s \<and> prefix (stdout s) (stdout s1)
      \<and> (ddg_store s k = Some v \<longrightarrow> ddg_store s1 k = Some v)
      \<and> (res = Inr r \<longrightarrow> ddg_store s1 topic = Some r)"
    using assms
  proof (cases rule: ddg_top_hit_cases)
    case (hit r')
    then show ?thesis by simp
  next
    case (raised e)
    then show ?thesis by (simp add: verbose_print_frame)
  next
    case (stored results sa)
    from first_hit_after_print[OF stored(3)] have fr: "gpt_store sa = gpt_store s"
      "gpt_query_count sa = gpt_query_count s" "completions sa = completions s"
      "prefix (stdout s) (stdout sa)" by simp_all
    show ?thesis using fr stored(1,4,5) by auto
  qed
  then show "gpt_store s1 = gpt_store s" "gpt_query_count s1 = gpt_query_count s"
    "completions s1 = completions s" "prefix (stdout s) (stdout s1)"
    "ddg_store s k = Some v \<Longrightarrow> ddg_store s1 k = Some v"
    "res = Inr r \<Longrightarrow> ddg_store s1 topic = Some r" by simp_all
qed

lemma failed_fetch_seen:
  assumes "fetch_store s h = None" "\<forall>resp. requests_get w h = Inr resp \<longrightarrow> status_code resp \<noteq> 200"
  shows "seen w s h = (None, None)"
  using assms
  by (auto simp: seen_def page_info_def fetch_body_def Let_def split: sum.splits)

text \<open>
  C6: on a topic that is not stored, the resolver returns the triple of the first result, in
  the order returned, whose extracted text is non-empty, and \<open>None\<close> when there is none;
  every page it requests is one of the results up to and including that first hit; and a
  candidate whose request raises or whose status is not 200 counts as a candidate without
  text, so that the loop goes on to the next result.
\<close>

theorem resolver_returns_first_nonempty:
  assumes "ddg_store s topic = None" and "ddg w topic = Inr results"
  shows "\<exists>s1 fs. ddg_top_hit w a topic s =
            (Inr (first_nonempty (map (\<lambda>h. (h, seen w s h)) results)), s1)
      \<and> fetched s1 = fetched s @ fs
      \<and> set fs \<subseteq> set (takeWhile (\<lambda>h. \<not> nonempty (seen w s h)) results
                        @ take 1 (dropWhile (\<lambda>h. \<not> nonempty (seen w s h)) results))
      \<and> (\<forall>h. fetch_store s h = None
              \<and> (\<forall>resp. requests_get w h = Inr resp \<longrightarrow> status_code resp \<noteq> 200)
            \<longrightarrow> seen w s h = (None, None))"
proof -
  obtain res s1 where d: "ddg_top_hit w a topic s = (res, s1)" by (cases "ddg_top_hit w a topic s")
  from d show ?thesis
  proof (cases rule: ddg_top_hit_cases)
    case (hit r)
    with assms show ?thesis by simp
  next
    case (raised e)
    with assms show ?thesis by simp
  next
    case (stored results' sa)
    with assms have eq: "results' = results" by simp
    note fr = first_hit_after_print(2)[OF stored(3)]
    from fr obtain fs where fs: "fetched sa = fetched s @ fs"
      "set fs \<subseteq> set (takeWhile (\<lambda>h. \<not> nonempty (seen w s h)) results
                        @ take 1 (dropWhile (\<lambda>h. \<not> nonempty (seen w s h)) results))"
      unfolding eq by blast
    have "fetched s1 = fetched s @ fs" using stored(5) fs(1) by simp
    then show ?thesis using d stored(4) fs(2) failed_fetch_seen unfolding eq by blast
  qed
qed

text \<open>
  C10: for a page that is requested (not stored), answers with status 200 and has no title
  element, \<open>fetch_url_and_extract_info\<close> returns \<open>(None, None)\<close>, whatever text the page
  has, and stores that pair; the loop of the resolver, having requested the page, goes on
  to the next result.
\<close>

theorem untitled_page_is_skipped:
  assumes "fetch_store s url = None" and "requests_get w url = Inr resp"
    and "status_code resp = 200" and "title (html_parser w (content resp)) = None"
  shows "\<exists>s1 s2. fetch_url_and_extract_info w url s = (Inr (None, None), s1)
      \<and> fetch_store s1 url = Some (None, None)
      \<and> first_hit w a (url # rest) s = first_hit w a rest s2
      \<and> fetch_store s2 url = Some (None, None) \<and> fetched s2 = fetched s @ [url]"
proof -
  let ?sp = "verbose_print a (''  Fetching '' @ url) s"
  have stored: "\<exists>t1. fetch_url_and_extract_info w url t = (Inr (None, None), t1)
      \<and> fetch_store t1 url = Some (None, None) \<and> fetched t1 = fetched t @ [url]"
    if "fetch_store t url = None" for t
    using that assms(2,3,4)
    by (simp add: fetch_url_and_extract_info_def memory_cache_def fetch_body_def Let_def print_def)
  have sp: "fetch_store ?sp url = None" using assms(1) by (simp add: verbose_print_frame)
  from stored[OF assms(1)] obtain s1 where
    s1: "fetch_url_and_extract_info w url s = (Inr (None, None), s1)"
    "fetch_store s1 url = Some (None, None)" by blast
  from stored[OF sp] obtain s2 where
    s2: "fetch_url_and_extract_info w url ?sp = (Inr (None, None), s2)"
    "fetch_store s2 url = Some (None, None)" "fetched s2 = fetched ?sp @ [url]" by blast
  have "first_hit w a (url # rest) s = first_hit w a rest s2"
    by (simp only: first_hit.simps s2(1) prod.case sum.case option.case)
  moreover have "fetched s2 = fetched s @ [url]" using s2(3) by (simp only: verbose_print_frame)
  ultimately show ?thesis using s1 s2(2) by blast
qed

lemma sample_pages:
  "page_info sample_world ''r0'' = (None, None)"
  "page_info sample_world ''r1'' = (None, None)"
  "page_info sample_world ''r2'' = (Some ''Two'', Some ''Two second page'')"
  "page_info sample_world ''r3'' = (Some ''Three'', Some ''Three third page'')"
  "page_info sample_world ''r4'' = (None, Some ''some text'')"
  by (simp_all add: page_info_def fetch_body_def sample_world_def sample_get_def sample_parser_def
      Let_def print_def)

lemma sample_seen: "seen sample_world empty_start url = page_info sample_world url"
  by (simp add: seen_def start_def)

theorem resolver_first_nonempty_witness:
  "\<exists>s1 fs. ddg_top_hit sample_world sample_args ''Berlin Wall 1989'' empty_start =
       (Inr (Some (''r2'', Some ''Two'', ''Two second page'')), s1)
     \<and> fetched s1 = fs \<and> set fs \<subseteq> {''r0'', ''r1'', ''r2''}"
proof -
  have a: "ddg_store empty_start ''Berlin Wall 1989'' = None" by (simp add: start_def)
  have b: "ddg sample_world ''Berlin Wall 1989'' = Inr [''r0'', ''r1'', ''r2'', ''r3'']"
    by (simp add: sample_world_def sample_ddg_def)
  have c: "fetched empty_start = []" by (simp add: start_def)
  from resolver_returns_first_nonempty[OF a b]
  show ?thesis by (simp add: sample_seen sample_pages c) blast
qed

lemma resolver_sample_fetches:
  "fetched (snd (ddg_top_hit sample_world sample_args ''Berlin Wall 1989'' empty_start)) = [''r0'', ''r1'', ''r2'']"
  by (simp add: ddg_top_hit_def ddg_top_hit_body_def memory_cache_def
      fetch_url_and_extract_info_def fetch_body_def sample_world_def sample_ddg_def
      sample_get_def sample_parser_def start_def Let_def print_def verbose_print_def
      sample_args_def)

theorem untitled_page_witness:
  "\<exists>s1 s2. fetch_url_and_extract_info sample_world ''r0'' empty_start = (Inr (None, None), s1)
      \<and> fetch_store s1 ''r0'' = Some (None, None)
      \<and> first_hit sample_world sample_args [''r0'', ''r2''] empty_start
          = first_hit sample_world sample_args [''r2''] s2
      \<and> fetch_store s2 ''r0'' = Some (None, None) \<and> fetched s2 = fetched empty_start @ [''r0'']"
proof -
  have a: "fetch_store empty_start ''r0'' = None" by (simp add: start_def)
  have b: "requests_get sample_world ''r0'' = Inr \<lparr>status_code = 200, content = ''body text''\<rparr>"
    by (simp add: sample_world_def sample_get_def)
  have c: "status_code \<lparr>status_code = 200, content = ''body text''\<rparr> = 200" by simp
  have d: "title (html_parser sample_world (content \<lparr>status_code = 200, content = ''body text''\<rparr>)) = None"
    by (simp add: sample_world_def sample_parser_def)
  show ?thesis by (rule untitled_page_is_skipped[OF a b c d])
qed

lemma untitled_page_text_discarded:
  "stripped_strings (html_parser sample_world ''body text'') = [''body'', ''text'']
   \<and> fst (fetch_url_and_extract_info sample_world ''r0'' empty_start) = Inr (None, None)"
  by (simp add: fetch_url_and_extract_info_def memory_cache_def fetch_body_def sample_world_def
      sample_get_def sample_parser_def start_def Let_def print_def)

section \<open>The orchestrator, the summarization pass and the report\<close>

lemma shorten_text_under:
  "token_count w m t \<le> max_token_count m \<Longrightarrow> shorten_text w m t = Some t"
  by (subst shorten_text.simps) simp

lemma search_prompt_length: "25 < length (search_prompt w a)"
  by (simp add: search_prompt_def)

lemma resolve_raises_on_None:
  "ddg_top_hit w a search s = (Inr None, s1) \<Longrightarrow>
     resolve w a (search # rest) bg sources s = (Inl TypeError, s1)"
  by simp

lemma resolve_frame:
  "resolve w a searches bg sources s = (res, s1) \<Longrightarrow>
     gpt_store s1 = gpt_store s \<and> gpt_query_count s1 = gpt_query_count s
     \<and> completions s1 = completions s \<and> prefix (stdout s) (stdout s1)
     \<and> (\<forall>k v. ddg_store s k = Some v \<longrightarrow> ddg_store s1 k = Some v)"
proof (induction searches arbitrary: bg sources s)
  case Nil
  then show ?case by simp
next
  case (Cons search rest)
  obtain r sa where d: "ddg_top_hit w a search s = (r, sa)" by (cases "ddg_top_hit w a search s")
  note fr = ddg_top_hit_frame[OF d]
  show ?case
  proof (cases r)
    case (Inl e)
    with d Cons.prems have "s1 = sa" by simp
    with fr show ?thesis by blast
  next
    case (Inr hit)
    show ?thesis
    proof (cases hit)
      case None
      with Inr d Cons.prems have "s1 = sa" by simp
      with fr show ?thesis by blast
    next
      case (Some triple)
      obtain source tt tx where tr: "triple = (source, tt, tx)" by (cases triple)
      from Some Inr d Cons.prems tr
      have "resolve w a rest (AList.update search (Some tx) bg) (sources @ [(source, tt)]) sa = (res, s1)"
        by simp
      from Cons.IH[OF this] have ih: "gpt_store s1 = gpt_store sa" "gpt_query_count s1 = gpt_query_count sa"
        "completions s1 = completions sa" "prefix (stdout sa) (stdout s1)"
        "\<forall>k v. ddg_store sa k = Some v \<longrightarrow> ddg_store s1 k = Some v" by simp_all
      have "prefix (stdout s) (stdout s1)" using fr(4) ih(4) by (rule prefix_order.trans)
      moreover have "\<forall>k v. ddg_store s k = Some v \<longrightarrow> ddg_store s1 k = Some v"
        using fr(5) ih(5) by blast
      ultimately show ?thesis using ih(1,2,3) fr(1,2,3) by simp
    qed
  qed
qed

lemma resolve_sources:
  "resolve w a searches bg sources s = (Inr (bg', sources'), s1) \<Longrightarrow>
     \<exists>new. sources' = sources @ new \<and> length new = length searches
       \<and> (\<forall>i<length searches. \<exists>tx.
             ddg_store s1 (searches ! i) = Some (Some (fst (new ! i), snd (new ! i), tx)))"
proof (induction searches arbitrary: bg sources s)
  case Nil
  then show ?case by simp
next
  case (Cons search rest)
  obtain r sa where d: "ddg_top_hit w a search s = (r, sa)" by (cases "ddg_top_hit w a search s")
  from Cons.prems d obtain source tt tx where r: "r = Inr (Some (source, tt, tx))"
    and rec: "resolve w a rest (AList.update search (Some tx) bg) (sources @ [(source, tt)]) sa
        = (Inr (bg', sources'), s1)"
    by (auto split: sum.splits option.splits)
  from ddg_top_hit_frame(6)[OF d r] have st: "ddg_store sa search = Some (Some (source, tt, tx))" .
  from resolve_frame[OF rec] st have st1: "ddg_store s1 search = Some (Some (source, tt, tx))"
    by blast
  from Cons.IH[OF rec] obtain new where new: "sources' = (sources @ [(source, tt)]) @ new"
    "length new = length rest"
    "\<forall>i<length rest. \<exists>tx. ddg_store s1 (rest ! i) = Some (Some (fst (new ! i), snd (new ! i), tx))"
    by blast
  have "\<forall>i<length (search # rest). \<exists>tx.
      ddg_store s1 ((search # rest) ! i) = Some (Some (fst (((source, tt) # new) ! i), snd (((source, tt) # new) ! i), tx))"
  proof (intro allI impI)
    fix i assume "i < length (search # rest)"
    then show "\<exists>tx. ddg_store s1 ((search # rest) ! i)
        = Some (Some (fst (((source, tt) # new) ! i), snd (((source, tt) # new) ! i), tx))"
      using st1 new(3) by (cases i) auto
  qed
  then show ?case using new(1,2) by (intro exI[of _ "(source, tt) # new"]) simp
qed

lemma print_sources_result:
  "print_sources sources s =
     s\<lparr>stdout := stdout s @ map (\<lambda>(source, t). ''* ['' @ str_opt t @ '']('' @ source @ '')'') sources\<rparr>"
  by (induction sources s rule: print_sources.induct) (simp_all add: print_def)

lemma report_result:
  assumes "report w a bg sources s = (Inr (), s1)"
  shows "\<exists>answer. stdout s1 = stdout s @
           [answer, ''('' @ model_name (args_model a) @ '', '' @ str_nat (gpt_query_count s1) @ '' queries)'',
            [], ''Sources:'']
           @ map (\<lambda>(source, t). ''* ['' @ str_opt t @ '']('' @ source @ '')'') sources"
    and "gpt_query_count s1 + length (completions s) = gpt_query_count s + length (completions s1)"
    and "ddg_store s1 = ddg_store s"
    and "\<And>k v. gpt_store s k = Some v \<Longrightarrow> gpt_store s1 k = Some v"
proof -
  let ?p = "background_text bg @ [nl, nl] @ today_prompt w @ [nl, nl] @ question a"
  obtain r sa where g: "gpt w (args_model a) ?p None s = (r, sa)"
    by (cases "gpt w (args_model a) ?p None s")
  from assms g obtain answer where r: "r = Inr answer"
    and s1: "s1 = print_sources sources (print ''Sources:'' (print [] (print
        (''('' @ model_name (args_model a) @ '', '' @ str_nat (gpt_query_count sa) @ '' queries)'')
        (print answer sa))))"
    by (auto simp: report_def Let_def print_def split: sum.splits)
  note fr = gpt_frame[OF g]
  show "\<exists>answer. stdout s1 = stdout s @
           [answer, ''('' @ model_name (args_model a) @ '', '' @ str_nat (gpt_query_count s1) @ '' queries)'',
            [], ''Sources:'']
           @ map (\<lambda>(source, t). ''* ['' @ str_opt t @ '']('' @ source @ '')'') sources"
    using fr(4) by (intro exI[of _ answer]) (simp add: s1 print_sources_result print_def)
  show "gpt_query_count s1 + length (completions s) = gpt_query_count s + length (completions s1)"
    using fr(5) by (simp add: s1 print_sources_result print_def)
  show "ddg_store s1 = ddg_store s"
    using fr(1) by (simp add: s1 print_sources_result print_def)
  show "\<And>k v. gpt_store s k = Some v \<Longrightarrow> gpt_store s1 k = Some v"
    using fr(6) by (simp add: s1 print_sources_result print_def)
qed

lemma summarize_loop_frame:
  "summarize_loop w m keys bg s = (res, s1) \<Longrightarrow>
     ddg_store s1 = ddg_store s \<and> stdout s1 = stdout s
     \<and> gpt_query_count s1 + length (completions s) = gpt_query_count s + length (completions s1)
     \<and> (\<forall>k v. gpt_store s k = Some v \<longrightarrow> gpt_store s1 k = Some v)"
proof (induction keys arbitrary: bg s)
  case Nil
  then show ?case by simp
next
  case (Cons subject rest)
  show ?case
  proof (cases "\<exists>t. map_of bg subject = Some (Some t) \<and> t \<noteq> []
      \<and> \<not> token_count w m (background_text bg) \<le> max_token_count m")
    case True
    then obtain t where t: "map_of bg subject = Some (Some t)" "t \<noteq> []"
      "\<not> token_count w m (background_text bg) \<le> max_token_count m" by blast
    obtain r sa where g: "gpt w m (summarize_prompt subject t) None s = (r, sa)"
      by (cases "gpt w m (summarize_prompt subject t) None s")
    note fr = gpt_frame[OF g]
    show ?thesis
    proof (cases r)
      case (Inl e)
      with Cons.prems t g have "s1 = sa" by simp
      with fr show ?thesis by blast
    next
      case (Inr summary)
      with Cons.prems t g
      have "summarize_loop w m rest (AList.update subject (Some summary) bg) sa = (res, s1)" by simp
      from Cons.IH[OF this] fr show ?thesis by auto
    qed
  next
    case False
    then have "summarize_loop w m (subject # rest) bg s = summarize_loop w m rest bg s
        \<or> summarize_loop w m (subject # rest) bg s = (Inl KeyError, s)
        \<or> summarize_loop w m (subject # rest) bg s = (Inr bg, s)"
      by (auto split: option.splits)
    with Cons.prems Cons.IH[of bg s] show ?thesis by auto
  qed
qed

lemma summarize_loop_result:
  "distinct keys \<Longrightarrow> set keys \<subseteq> fst ` set bg \<Longrightarrow>
   summarize_loop w m keys bg s = (Inr bg', s1) \<Longrightarrow>
     map fst bg' = map fst bg
     \<and> (\<forall>k. k \<notin> set keys \<longrightarrow> map_of bg' k = map_of bg k)
     \<and> (token_count w m (background_text bg') \<le> max_token_count m
        \<or> (\<forall>k\<in>set keys. \<forall>t. map_of bg k = Some (Some t) \<and> t \<noteq> [] \<longrightarrow>
              (\<exists>r. map_of bg' k = Some (Some r)
                 \<and> gpt_store s1 (summarize_prompt k t, None) = Some r)))"
proof (induction keys arbitrary: bg s)
  case Nil
  then show ?case by simp
next
  case (Cons subject rest)
  from Cons.prems have dr: "distinct rest" and nin: "subject \<notin> set rest"
    and sub: "set rest \<subseteq> fst ` set bg" and inb: "subject \<in> fst ` set bg" by auto
  from inb obtain v where v: "map_of bg subject = Some v"
    by (metis domD dom_map_of_conv_image_fst)
  show ?case
  proof (cases "\<exists>t. v = Some t \<and> t \<noteq> []")
    case False
    then have "summarize_loop w m (subject # rest) bg s = summarize_loop w m rest bg s"
      using v by (cases v) auto
    with Cons.prems have rec: "summarize_loop w m rest bg s = (Inr bg', s1)" by simp
    from Cons.IH[OF dr sub rec] False v show ?thesis by auto
  next
    case True
    then obtain t where t: "v = Some t" "t \<noteq> []" by blast
    show ?thesis
    proof (cases "token_count w m (background_text bg) \<le> max_token_count m")
      case True
      with Cons.prems v t have "bg' = bg" by simp
      with True show ?thesis by simp
    next
      case False
      obtain r sa where g: "gpt w m (summarize_prompt subject t) None s = (r, sa)"
        by (cases "gpt w m (summarize_prompt subject t) None s")
      from Cons.prems v t False g obtain summary where r: "r = Inr summary"
        and rec: "summarize_loop w m rest (AList.update subject (Some summary) bg) sa = (Inr bg', s1)"
        by (auto split: sum.splits)
      let ?bg1 = "AList.update subject (Some summary) bg"
      have keys1: "map fst ?bg1 = map fst bg" using inb by (simp add: update_keys)
      then have sub1: "set rest \<subseteq> fst ` set ?bg1" using sub by (metis list.set_map)
      have m1: "map_of ?bg1 = (map_of bg)(subject \<mapsto> Some summary)" by (rule update_conv')
      from gpt_frame(7)[OF g r] have "gpt_store sa (summarize_prompt subject t, None) = Some summary" .
      with summarize_loop_frame[OF rec]
      have stored: "gpt_store s1 (summarize_prompt subject t, None) = Some summary" by blast
      from Cons.IH[OF dr sub1 rec] have ih: "map fst bg' = map fst ?bg1"
        "\<forall>k. k \<notin> set rest \<longrightarrow> map_of bg' k = map_of ?bg1 k"
        "token_count w m (background_text bg') \<le> max_token_count m
          \<or> (\<forall>k\<in>set rest. \<forall>t. map_of ?bg1 k = Some (Some t) \<and> t \<noteq> [] \<longrightarrow>
              (\<exists>r. map_of bg' k = Some (Some r)
                 \<and> gpt_store s1 (summarize_prompt k t, None) = Some r))"
        by simp_all
      have a: "\<forall>k. k \<notin> set (subject # rest) \<longrightarrow> map_of bg' k = map_of bg k"
        using ih(2) m1 by simp
      have here: "map_of bg' subject = Some (Some summary)" using ih(2) nin m1 by simp
      have b: "token_count w m (background_text bg') \<le> max_token_count m
          \<or> (\<forall>k\<in>set (subject # rest). \<forall>t. map_of bg k = Some (Some t) \<and> t \<noteq> [] \<longrightarrow>
              (\<exists>r. map_of bg' k = Some (Some r)
                 \<and> gpt_store s1 (summarize_prompt k t, None) = Some r))"
      proof (cases "token_count w m (background_text bg') \<le> max_token_count m")
        case True
        then show ?thesis by simp
      next
        case False
        with ih(3) have all: "\<forall>k\<in>set rest. \<forall>t. map_of ?bg1 k = Some (Some t) \<and> t \<noteq> [] \<longrightarrow>
              (\<exists>r. map_of bg' k = Some (Some r)
                 \<and> gpt_store s1 (summarize_prompt k t, None) = Some r)" by simp
        have "\<forall>k\<in>set (subject # rest). \<forall>t. map_of bg k = Some (Some t) \<and> t \<noteq> [] \<longrightarrow>
              (\<exists>r. map_of bg' k = Some (Some r)
                 \<and> gpt_store s1 (summarize_prompt k t, None) = Some r)"
        proof (intro ballI allI impI)
          fix k t' assume k: "k \<in> set (subject # rest)"
            and kt: "map_of bg k = Some (Some t') \<and> t' \<noteq> []"
          show "\<exists>r. map_of bg' k = Some (Some r)
                 \<and> gpt_store s1 (summarize_prompt k t', None) = Some r"
          proof (cases "k = subject")
            case True
            with kt v t have "t' = t" by simp
            with True here stored show ?thesis by simp
          next
            case False
            with k have "k \<in> set rest" by simp
            moreover have "map_of ?bg1 k = Some (Some t')" using False kt m1 by simp
            ultimately show ?thesis using all kt by blast
          qed
        qed
        then show ?thesis by simp
      qed
      show ?thesis using ih(1) keys1 a b by simp
    qed
  qed
qed

lemma summarize_loop_requests:
  "distinct keys \<Longrightarrow> summarize_loop w m keys bg s = (res, s1) \<Longrightarrow>
     \<exists>ks. completions s1 = completions s @ map (\<lambda>(k, t). (m, summarize_prompt k t)) ks
        \<and> gpt_query_count s1 = gpt_query_count s + length ks
        \<and> distinct (map fst ks) \<and> set (map fst ks) \<subseteq> set keys
        \<and> (\<forall>(k, t)\<in>set ks. map_of bg k = Some (Some t) \<and> t \<noteq> [])"
proof (induction keys arbitrary: bg s)
  case Nil
  then show ?case by (intro exI[of _ "[]"]) simp
next
  case (Cons subject rest)
  from Cons.prems(1) have dr: "distinct rest" and nin: "subject \<notin> set rest" by auto
  show ?case
  proof (cases "\<exists>t. map_of bg subject = Some (Some t) \<and> t \<noteq> []
      \<and> \<not> token_count w m (background_text bg) \<le> max_token_count m")
    case False
    then have "summarize_loop w m (subject # rest) bg s = summarize_loop w m rest bg s
        \<or> summarize_loop w m (subject # rest) bg s = (Inl KeyError, s)
        \<or> summarize_loop w m (subject # rest) bg s = (Inr bg, s)"
      by (auto split: option.splits)
    then consider (go) "summarize_loop w m rest bg s = (res, s1)" | (stop) "s1 = s"
      using Cons.prems(2) by auto
    then show ?thesis
    proof cases
      case go
      from Cons.IH[OF dr go] obtain ks where
        "completions s1 = completions s @ map (\<lambda>(k, t). (m, summarize_prompt k t)) ks"
        "gpt_query_count s1 = gpt_query_count s + length ks"
        "distinct (map fst ks)" "set (map fst ks) \<subseteq> set rest"
        "\<forall>(k, t)\<in>set ks. map_of bg k = Some (Some t) \<and> t \<noteq> []" by blast
      then show ?thesis by (intro exI[of _ ks]) auto
    next
      case stop
      then show ?thesis by (intro exI[of _ "[]"]) simp
    qed
  next
    case True
    then obtain t where t: "map_of bg subject = Some (Some t)" "t \<noteq> []"
      "\<not> token_count w m (background_text bg) \<le> max_token_count m" by blast
    obtain r sa where g: "gpt w m (summarize_prompt subject t) None s = (r, sa)"
      by (cases "gpt w m (summarize_prompt subject t) None s")
    have here: "\<exists>k0. (k0 = [] \<or> k0 = [(subject, t)])
        \<and> completions sa = completions s @ map (\<lambda>(k, t). (m, summarize_prompt k t)) k0
        \<and> gpt_query_count sa = gpt_query_count s + length k0"
      using g
    proof (cases rule: gpt_cases)
      case (hit r')
      then show ?thesis by (intro exI[of _ "[]"]) simp
    next
      case short
      then show ?thesis by (intro exI[of _ "[]"]) simp
    next
      case (raised e)
      then show ?thesis by (intro exI[of _ "[(subject, t)]"]) simp
    next
      case (stored r')
      then show ?thesis by (intro exI[of _ "[(subject, t)]"]) simp
    qed
    then obtain k0 where k0: "k0 = [] \<or> k0 = [(subject, t)]"
      "completions sa = completions s @ map (\<lambda>(k, t). (m, summarize_prompt k t)) k0"
      "gpt_query_count sa = gpt_query_count s + length k0" by blast
    show ?thesis
    proof (cases r)
      case (Inl e)
      with Cons.prems(2) t g have "s1 = sa" by simp
      with k0 t(1,2) show ?thesis by (intro exI[of _ k0]) auto
    next
      case (Inr summary)
      let ?bg1 = "AList.update subject (Some summary) bg"
      from Inr Cons.prems(2) t g
      have rec: "summarize_loop w m rest ?bg1 sa = (res, s1)" by simp
      have m1: "map_of ?bg1 = (map_of bg)(subject \<mapsto> Some summary)" by (rule update_conv')
      from Cons.IH[OF dr rec] obtain ks where ks:
        "completions s1 = completions sa @ map (\<lambda>(k, t). (m, summarize_prompt k t)) ks"
        "gpt_query_count s1 = gpt_query_count sa + length ks"
        "distinct (map fst ks)" "set (map fst ks) \<subseteq> set rest"
        "\<forall>(k, t)\<in>set ks. map_of ?bg1 k = Some (Some t) \<and> t \<noteq> []" by blast
      have notin: "subject \<notin> set (map fst ks)" using ks(4) nin by blast
      have look: "\<forall>(k, t)\<in>set ks. map_of bg k = Some (Some t) \<and> t \<noteq> []"
      proof (intro ballI)
        fix p assume p: "p \<in> set ks"
        obtain k t' where kt: "p = (k, t')" by (cases p)
        with p have "k \<in> set (map fst ks)" by force
        with notin have "k \<noteq> subject" by blast
        with ks(5) p kt m1 show "case p of (k, t) \<Rightarrow> map_of bg k = Some (Some t) \<and> t \<noteq> []"
          by auto
      qed
      show ?thesis
      proof (intro exI[of _ "k0 @ ks"] conjI)
        show "completions s1 = completions s @ map (\<lambda>(k, t). (m, summarize_prompt k t)) (k0 @ ks)"
          using ks(1) k0(2) by simp
        show "gpt_query_count s1 = gpt_query_count s + length (k0 @ ks)"
          using ks(2) k0(3) by simp
        show "distinct (map fst (k0 @ ks))" using k0(1) ks(3) notin by force
        show "set (map fst (k0 @ ks)) \<subseteq> set (subject # rest)" using k0(1) ks(4) by auto
        show "\<forall>(k, t)\<in>set (k0 @ ks). map_of bg k = Some (Some t) \<and> t \<noteq> []"
          using k0(1) look t(1,2) by auto
      qed
    qed
  qed
qed

lemma summarize_loop_fits:
  "token_count w m (background_text bg) \<le> max_token_count m \<Longrightarrow>
   summarize_loop w m keys bg s = (res, s1) \<Longrightarrow>
     (res = Inr bg \<or> res = Inl KeyError) \<and> s1 = s"
  by (induction keys) (auto split: option.splits if_splits)

lemma summarize_loop_untouched:
  "summarize_loop w m keys bg s = (Inr bg', s1) \<Longrightarrow>
     \<forall>k. k \<notin> set keys \<longrightarrow> map_of bg' k = map_of bg k"
proof (induction keys arbitrary: bg s)
  case Nil
  then show ?case by simp
next
  case (Cons x xs)
  show ?case
  proof (intro allI impI)
    fix k assume k: "k \<notin> set (x # xs)"
    from Cons.prems have "bg' = bg
      \<or> summarize_loop w m xs bg s = (Inr bg', s1)
      \<or> (\<exists>v s'. summarize_loop w m xs (AList.update x v bg) s' = (Inr bg', s1))"
      by (auto split: option.splits if_splits sum.splits prod.splits)
    then show "map_of bg' k = map_of bg k"
      using Cons.IH k by (auto simp: update_conv')
  qed
qed

lemma summarize_loop_each:
  "distinct keys \<Longrightarrow> summarize_loop w m keys bg s = (Inr bg', s1) \<Longrightarrow>
     \<forall>k. map_of bg' k = map_of bg k
        \<or> (\<exists>t r. map_of bg k = Some (Some t) \<and> t \<noteq> [] \<and> map_of bg' k = Some (Some r)
              \<and> gpt_store s1 (summarize_prompt k t, None) = Some r)"
proof (induction keys arbitrary: bg s)
  case Nil
  then show ?case by simp
next
  case (Cons subject rest)
  from Cons.prems(1) have dr: "distinct rest" and nin: "subject \<notin> set rest" by auto
  show ?case
  proof (cases "\<exists>t. map_of bg subject = Some (Some t) \<and> t \<noteq> []
      \<and> \<not> token_count w m (background_text bg) \<le> max_token_count m")
    case False
    then have "summarize_loop w m (subject # rest) bg s = summarize_loop w m rest bg s
        \<or> summarize_loop w m (subject # rest) bg s = (Inl KeyError, s)
        \<or> summarize_loop w m (subject # rest) bg s = (Inr bg, s)"
      by (auto split: option.splits)
    then consider (go) "summarize_loop w m rest bg s = (Inr bg', s1)" | (stop) "bg' = bg"
      using Cons.prems(2) by auto
    then show ?thesis
    proof cases
      case go
      from Cons.IH[OF dr go] show ?thesis .
    next
      case stop
      then show ?thesis by simp
    qed
  next
    case True
    then obtain t where t: "map_of bg subject = Some (Some t)" "t \<noteq> []"
      "\<not> token_count w m (background_text bg) \<le> max_token_count m" by blast
    obtain r sa where g: "gpt w m (summarize_prompt subject t) None s = (r, sa)"
      by (cases "gpt w m (summarize_prompt subject t) None s")
    from Cons.prems(2) t g obtain summary where r: "r = Inr summary"
      and rec: "summarize_loop w m rest (AList.update subject (Some summary) bg) sa = (Inr bg', s1)"
      by (auto split: sum.splits)
    let ?bg1 = "AList.update subject (Some summary) bg"
    have m1: "map_of ?bg1 = (map_of bg)(subject \<mapsto> Some summary)" by (rule update_conv')
    from gpt_frame(7)[OF g r] have "gpt_store sa (summarize_prompt subject t, None) = Some summary" .
    with summarize_loop_frame[OF rec]
    have stored: "gpt_store s1 (summarize_prompt subject t, None) = Some summary" by blast
    have untouched: "\<forall>k. k \<notin> set rest \<longrightarrow> map_of bg' k = map_of ?bg1 k"
      by (rule summarize_loop_untouched[OF rec])
    from Cons.IH[OF dr rec] have ih: "\<forall>k. map_of bg' k = map_of ?bg1 k
        \<or> (\<exists>t r. map_of ?bg1 k = Some (Some t) \<and> t \<noteq> [] \<and> map_of bg' k = Some (Some r)
              \<and> gpt_store s1 (summarize_prompt k t, None) = Some r)" .
    show ?thesis
    proof (intro allI)
      fix k
      show "map_of bg' k = map_of bg k
        \<or> (\<exists>t r. map_of bg k = Some (Some t) \<and> t \<noteq> [] \<and> map_of bg' k = Some (Some r)
              \<and> gpt_store s1 (summarize_prompt k t, None) = Some r)"
      proof (cases "k = subject")
        case True
        with untouched nin m1 have "map_of bg' k = Some (Some summary)" by simp
        with True t stored show ?thesis by blast
      next
        case False
        with m1 have "map_of ?bg1 k = map_of bg k" by simp
        with ih show ?thesis by metis
      qed
    qed
  qed
qed

lemma pprint_lengths_frame:
  assumes "pprint_lengths w a label bg s = (res, s1)"
  shows "gpt_store s1 = gpt_store s" "ddg_store s1 = ddg_store s"
    "gpt_query_count s1 = gpt_query_count s" "completions s1 = completions s"
    "prefix (stdout s) (stdout s1)"
  using assms
  by (auto simp: pprint_lengths_def print_def split: if_splits sum.splits)

lemma main_phases:
  assumes "main w a s = Some (Inr (), s5)"
  shows "\<exists>search_text sa searches bg sources sb sb1 bg1 sb2 bg2 sc sc1.
      gpt w (args_model a) (search_prompt w a) None s = (Inr search_text, sa)
    \<and> json_loads w search_text = Inr searches
    \<and> resolve w a searches [] [] sa = (Inr (bg, sources), sb)
    \<and> pprint_lengths w a ''fetched:'' bg sb = (Inr (), sb1)
    \<and> shorten w (args_model a) bg = Some (Inr bg1)
    \<and> pprint_lengths w a ''shortened:'' bg1 sb1 = (Inr (), sb2)
    \<and> summarize w (args_model a) bg1 sb2 = (Inr bg2, sc)
    \<and> pprint_lengths w a ''summarized:'' bg2 sc = (Inr (), sc1)
    \<and> report w a bg2 sources sc1 = (Inr (), s5)"
  using assms
  by (auto simp: main_def Let_def split: prod.splits sum.splits option.splits)

lemma shorten_loop_keys:
  "set keys \<subseteq> fst ` set bg \<Longrightarrow> shorten_loop w m keys bg = Some (Inr bg') \<Longrightarrow>
     map fst bg' = map fst bg"
proof (induction keys arbitrary: bg)
  case Nil
  then show ?case by simp
next
  case (Cons subject rest)
  from Cons.prems(1) have sub: "set rest \<subseteq> fst ` set bg" and inb: "subject \<in> fst ` set bg" by auto
  show ?case
  proof (cases "\<exists>t. map_of bg subject = Some (Some t) \<and> t \<noteq> []")
    case True
    then obtain t where t: "map_of bg subject = Some (Some t)" "t \<noteq> []" by blast
    with Cons.prems(2) obtain t' where
      rec: "shorten_loop w m rest (AList.update subject (Some t') bg) = Some (Inr bg')"
      by (auto split: option.splits)
    have keys1: "map fst (AList.update subject (Some t') bg) = map fst bg"
      using inb by (simp add: update_keys)
    then have "set rest \<subseteq> fst ` set (AList.update subject (Some t') bg)"
      using sub by (metis list.set_map)
    from Cons.IH[OF this rec] keys1 show ?thesis by simp
  next
    case False
    with Cons.prems(2) have "shorten_loop w m rest bg = Some (Inr bg')"
      by (auto split: option.splits if_splits)
    from Cons.IH[OF sub this] show ?thesis .
  qed
qed

text \<open>
  C1, as amended: when the Context Reducer (\<open>shorten\<close>, then \<open>summarize\<close>) completes on a
  Background with distinct topics, the topics are the same and in the same order, and either
  the estimate of the serialized Background is at or under the ceiling of the active model,
  or every topic whose text is non-empty after truncation has had its text replaced by the
  completion stored for its summarization prompt. \<open>summarize\<close> makes one pass: every topic
  keeps its truncated text or has it replaced, once, by the completion for the summarization
  prompt of that truncated text; the requests sent to the completion service are
  summarization prompts of distinct topics with non-empty text, at most one for a topic and
  so no more than there are topics; the call counter rises by the number of requests
  sent; and when the estimate is at or under the ceiling after truncation, \<open>summarize\<close>
  changes nothing and sends nothing.
\<close>

theorem reducer_single_pass:
  assumes "distinct (map fst bg)"
    and "shorten w m bg = Some (Inr bg1)"
    and "summarize w m bg1 s = (Inr bg2, s1)"
  shows "map fst bg2 = map fst bg
    \<and> (token_count w m (background_text bg2) \<le> max_token_count m
       \<or> (\<forall>subject t. (subject, Some t) \<in> set bg1 \<and> t \<noteq> [] \<longrightarrow>
             (\<exists>r. map_of bg2 subject = Some (Some r)
                \<and> gpt_store s1 (summarize_prompt subject t, None) = Some r)))
    \<and> (\<forall>subject. map_of bg2 subject = map_of bg1 subject
          \<or> (\<exists>t r. map_of bg1 subject = Some (Some t) \<and> t \<noteq> []
                \<and> map_of bg2 subject = Some (Some r)
                \<and> gpt_store s1 (summarize_prompt subject t, None) = Some r))
    \<and> (\<exists>ks. completions s1 = completions s @ map (\<lambda>(k, t). (m, summarize_prompt k t)) ks
          \<and> gpt_query_count s1 = gpt_query_count s + length ks
          \<and> distinct (map fst ks)
          \<and> (\<forall>(k, t)\<in>set ks. (k, Some t) \<in> set bg1 \<and> t \<noteq> [])
          \<and> length ks \<le> length bg1)
    \<and> (token_count w m (background_text bg1) \<le> max_token_count m \<longrightarrow> bg2 = bg1 \<and> s1 = s)"
proof -
  have k1: "map fst bg1 = map fst bg"
    using assms(2) shorten_loop_keys[of "map fst bg" bg w m bg1] by (simp add: shorten_def)
  with assms(1) have d1: "distinct (map fst bg1)" by simp
  have sub: "set (map fst bg1) \<subseteq> fst ` set bg1" by simp
  from assms(3) have "summarize_loop w m (map fst bg1) bg1 s = (Inr bg2, s1)"
    by (simp add: summarize_def)
  from summarize_loop_result[OF d1 sub this]
  have r: "map fst bg2 = map fst bg1"
    "token_count w m (background_text bg2) \<le> max_token_count m
        \<or> (\<forall>k\<in>set (map fst bg1). \<forall>t. map_of bg1 k = Some (Some t) \<and> t \<noteq> [] \<longrightarrow>
              (\<exists>r. map_of bg2 k = Some (Some r)
                 \<and> gpt_store s1 (summarize_prompt k t, None) = Some r))"
    by simp_all
  have "token_count w m (background_text bg2) \<le> max_token_count m
       \<or> (\<forall>subject t. (subject, Some t) \<in> set bg1 \<and> t \<noteq> [] \<longrightarrow>
             (\<exists>r. map_of bg2 subject = Some (Some r)
                \<and> gpt_store s1 (summarize_prompt subject t, None) = Some r))"
  proof (cases "token_count w m (background_text bg2) \<le> max_token_count m")
    case True
    then show ?thesis by simp
  next
    case False
    with r(2) have all: "\<forall>k\<in>set (map fst bg1). \<forall>t. map_of bg1 k = Some (Some t) \<and> t \<noteq> [] \<longrightarrow>
              (\<exists>r. map_of bg2 k = Some (Some r)
                 \<and> gpt_store s1 (summarize_prompt k t, None) = Some r)" by simp
    have "\<forall>subject t. (subject, Some t) \<in> set bg1 \<and> t \<noteq> [] \<longrightarrow>
             (\<exists>r. map_of bg2 subject = Some (Some r)
                \<and> gpt_store s1 (summarize_prompt subject t, None) = Some r)"
    proof (intro allI impI)
      fix subject t assume h: "(subject, Some t) \<in> set bg1 \<and> t \<noteq> []"
      then have "subject \<in> set (map fst bg1)" by force
      moreover have "map_of bg1 subject = Some (Some t)" using h d1 by simp
      ultimately show "\<exists>r. map_of bg2 subject = Some (Some r)
                \<and> gpt_store s1 (summarize_prompt subject t, None) = Some r"
        using all h by blast
    qed
    then show ?thesis by simp
  qed
  note fits_or_all = this
  note sl = \<open>summarize_loop w m (map fst bg1) bg1 s = (Inr bg2, s1)\<close>
  from summarize_loop_each[OF d1 sl]
  have each: "\<forall>subject. map_of bg2 subject = map_of bg1 subject
          \<or> (\<exists>t r. map_of bg1 subject = Some (Some t) \<and> t \<noteq> []
                \<and> map_of bg2 subject = Some (Some r)
                \<and> gpt_store s1 (summarize_prompt subject t, None) = Some r)" .
  from summarize_loop_requests[OF d1 sl] obtain ks where ks:
    "completions s1 = completions s @ map (\<lambda>(k, t). (m, summarize_prompt k t)) ks"
    "gpt_query_count s1 = gpt_query_count s + length ks"
    "distinct (map fst ks)" "set (map fst ks) \<subseteq> set (map fst bg1)"
    "\<forall>(k, t)\<in>set ks. map_of bg1 k = Some (Some t) \<and> t \<noteq> []" by blast
  have mem: "\<forall>(k, t)\<in>set ks. (k, Some t) \<in> set bg1 \<and> t \<noteq> []"
    using ks(5) by (auto dest: map_of_SomeD)
  have "length ks = card (set (map fst ks))" using distinct_card[OF ks(3)] by simp
  also have "\<dots> \<le> card (set (map fst bg1))" using ks(4) by (intro card_mono) simp_all
  also have "\<dots> \<le> length bg1" using card_length[of "map fst bg1"] by simp
  finally have len: "length ks \<le> length bg1" .
  have req: "\<exists>ks. completions s1 = completions s @ map (\<lambda>(k, t). (m, summarize_prompt k t)) ks
          \<and> gpt_query_count s1 = gpt_query_count s + length ks
          \<and> distinct (map fst ks)
          \<and> (\<forall>(k, t)\<in>set ks. (k, Some t) \<in> set bg1 \<and> t \<noteq> [])
          \<and> length ks \<le> length bg1"
    using ks(1,2,3) mem len by blast
  have noop: "token_count w m (background_text bg1) \<le> max_token_count m \<longrightarrow> bg2 = bg1 \<and> s1 = s"
    using summarize_loop_fits[OF _ sl] by auto
  from r(1) k1 have "map fst bg2 = map fst bg" by simp
  with fits_or_all each req noop show ?thesis by blast
qed

text \<open>
  C3, as amended: in the report of a run that completes, the lines after \<open>Sources:\<close> are the
  citations \<open>* [title](origin)\<close> of the Sources list, one line for every topic of the parsed
  topic list and in the order of the topics, the \<open>i\<close>-th line citing the origin and title that
  the resolver has stored for the \<open>i\<close>-th topic; no entry is skipped, and an absent title is
  printed as the word \<open>None\<close>.
\<close>

theorem sources_printed_one_line_per_topic:
  assumes "main w a s = Some (Inr (), s1)"
  shows "\<exists>search_text searches sources pre answer trailer.
      gpt_store s1 (search_prompt w a, None) = Some search_text
    \<and> json_loads w search_text = Inr searches
    \<and> length sources = length searches
    \<and> (\<forall>i<length searches. \<exists>tx.
          ddg_store s1 (searches ! i) = Some (Some (fst (sources ! i), snd (sources ! i), tx)))
    \<and> stdout s1 = pre @ [answer, trailer, [], ''Sources:'']
          @ map (\<lambda>(source, t). ''* ['' @ str_opt t @ '']('' @ source @ '')'') sources"
proof -
  from main_phases[OF assms] obtain search_text sa searches bg sources sb sb1 bg1 sb2 bg2 sc sc1 where
    g: "gpt w (args_model a) (search_prompt w a) None s = (Inr search_text, sa)"
    and j: "json_loads w search_text = Inr searches"
    and rs: "resolve w a searches [] [] sa = (Inr (bg, sources), sb)"
    and p1: "pprint_lengths w a ''fetched:'' bg sb = (Inr (), sb1)"
    and p2: "pprint_lengths w a ''shortened:'' bg1 sb1 = (Inr (), sb2)"
    and su: "summarize w (args_model a) bg1 sb2 = (Inr bg2, sc)"
    and p3: "pprint_lengths w a ''summarized:'' bg2 sc = (Inr (), sc1)"
    and rp: "report w a bg2 sources sc1 = (Inr (), s1)" by blast
  note f1 = pprint_lengths_frame[OF p1] and f2 = pprint_lengths_frame[OF p2]
    and f3 = pprint_lengths_frame[OF p3]
  from gpt_frame(7)[OF g] have g1: "gpt_store sa (search_prompt w a, None) = Some search_text"
    by simp
  from resolve_frame[OF rs] f1(1) f2(1) have g2: "gpt_store sb2 = gpt_store sa" by simp
  from su have sl: "summarize_loop w (args_model a) (map fst bg1) bg1 sb2 = (Inr bg2, sc)"
    by (simp add: summarize_def)
  note sf = summarize_loop_frame[OF sl]
  from g1 g2 sf f3(1) have g3: "gpt_store sc1 (search_prompt w a, None) = Some search_text" by simp
  from report_result(4)[OF rp g3] have g4: "gpt_store s1 (search_prompt w a, None) = Some search_text" .
  from resolve_sources[OF rs] have len: "length sources = length searches"
    and st: "\<forall>i<length searches. \<exists>tx.
          ddg_store sb (searches ! i) = Some (Some (fst (sources ! i), snd (sources ! i), tx))"
    by auto
  have "ddg_store s1 = ddg_store sb" using report_result(3)[OF rp] sf f1(2) f2(2) f3(2) by simp
  with st have st1: "\<forall>i<length searches. \<exists>tx.
          ddg_store s1 (searches ! i) = Some (Some (fst (sources ! i), snd (sources ! i), tx))"
    by simp
  from report_result(1)[OF rp] obtain answer where
    "stdout s1 = stdout sc1 @ [answer,
        ''('' @ model_name (args_model a) @ '', '' @ str_nat (gpt_query_count s1) @ '' queries)'',
        [], ''Sources:'']
       @ map (\<lambda>(source, t). ''* ['' @ str_opt t @ '']('' @ source @ '')'') sources" by blast
  with g4 j len st1 show ?thesis by blast
qed

text \<open>
  C9: a call of \<open>gpt\<close> whose arguments are in the store returns the stored completion and
  leaves the state, and with it \<open>gpt_query_count\<close>, as it is; any call of \<open>gpt\<close> increments
  the counter by the number of requests it sends; and in a run that starts with the counter
  at zero and completes, the number printed in the trailer is the number of requests sent to
  the completion service during the run.
\<close>

theorem cache_hit_keeps_counter:
  "(gpt_store s (prompt, mo) = Some r \<longrightarrow> gpt w am prompt mo s = (Inr r, s))
   \<and> (gpt w am prompt mo s = (res, s') \<longrightarrow>
        gpt_query_count s' + length (completions s) = gpt_query_count s + length (completions s'))
   \<and> (main w a (start gs ds fs) = Some (Inr (), s1) \<longrightarrow>
        gpt_query_count s1 = length (completions s1)
        \<and> (\<exists>pre answer cites. stdout s1 = pre @
              [answer,
               ''('' @ model_name (args_model a) @ '', '' @ str_nat (length (completions s1)) @ '' queries)'',
               [], ''Sources:''] @ cites))"
proof -
  have hit: "gpt w am prompt mo s = (Inr r, s)" if "gpt_store s (prompt, mo) = Some r"
    using that by (simp add: gpt_def memory_cache_def)
  have step: "gpt_query_count s' + length (completions s) = gpt_query_count s + length (completions s')"
    if "gpt w am prompt mo s = (res, s')"
    using that by (rule gpt_frame(5))
  have run: "gpt_query_count s1 = length (completions s1)
        \<and> (\<exists>pre answer cites. stdout s1 = pre @
              [answer,
               ''('' @ model_name (args_model a) @ '', '' @ str_nat (length (completions s1)) @ '' queries)'',
               [], ''Sources:''] @ cites)"
    if m: "main w a (start gs ds fs) = Some (Inr (), s1)"
  proof -
  from main_phases[OF m] obtain search_text sa searches bg sources sb sb1 bg1 sb2 bg2 sc sc1 where
    g: "gpt w (args_model a) (search_prompt w a) None (start gs ds fs) = (Inr search_text, sa)"
    and rs: "resolve w a searches [] [] sa = (Inr (bg, sources), sb)"
    and p1: "pprint_lengths w a ''fetched:'' bg sb = (Inr (), sb1)"
    and p2: "pprint_lengths w a ''shortened:'' bg1 sb1 = (Inr (), sb2)"
    and su: "summarize w (args_model a) bg1 sb2 = (Inr bg2, sc)"
    and p3: "pprint_lengths w a ''summarized:'' bg2 sc = (Inr (), sc1)"
    and rp: "report w a bg2 sources sc1 = (Inr (), s1)" by blast
  note f1 = pprint_lengths_frame[OF p1] and f2 = pprint_lengths_frame[OF p2]
    and f3 = pprint_lengths_frame[OF p3]
  from gpt_frame(5)[OF g] have c1: "gpt_query_count sa = length (completions sa)"
    by (simp add: start_def)
  from resolve_frame[OF rs] c1 f1(3,4) f2(3,4)
  have c2: "gpt_query_count sb2 = length (completions sb2)" by simp
  from su have sl: "summarize_loop w (args_model a) (map fst bg1) bg1 sb2 = (Inr bg2, sc)"
    by (simp add: summarize_def)
  from summarize_loop_frame[OF sl] c2 f3(3,4)
  have c3: "gpt_query_count sc1 = length (completions sc1)" by simp
  from report_result(2)[OF rp] c3 have c4: "gpt_query_count s1 = length (completions s1)" by simp
  from report_result(1)[OF rp] c4 have "\<exists>pre answer cites. stdout s1 = pre @
              [answer,
               ''('' @ model_name (args_model a) @ '', '' @ str_nat (length (completions s1)) @ '' queries)'',
               [], ''Sources:''] @ cites" by auto
    with c4 show ?thesis by simp
  qed
  from hit step run show ?thesis by blast
qed

lemmas run_defs = main_def args_model_def sample_args_def sample_world_def
      gpt_def memory_cache_def gpt_body_def search_prompt_def today_prompt_def start_def
      ddg_top_hit_def ddg_top_hit_body_def sample_ddg_def
      fetch_url_and_extract_info_def fetch_body_def sample_get_def sample_parser_def
      shorten_def shorten_text_under token_count_def char_tokens_def summarize_def
      background_text_def report_def print_def Let_def str_nat.simps digit_def
      pprint_lengths_def verbose_print_def

lemma two_topics_estimate:
  "token_count echo_world GPT35Turbo (background_text two_topics) = 6016"
  by (simp add: token_count_def echo_world_def sample_world_def char_tokens_def
      background_text_def two_topics_def)

lemma two_topics_shorten: "shorten echo_world GPT35Turbo two_topics = Some (Inr two_topics)"
  by (simp add: shorten_def two_topics_def shorten_text_under token_count_def echo_world_def
      sample_world_def char_tokens_def)

lemma two_topics_summarize:
  "fst (summarize echo_world GPT35Turbo two_topics empty_start) = Inr two_topics"
  by (simp add: summarize_def two_topics_def token_count_def echo_world_def
      sample_world_def char_tokens_def background_text_def summarize_prompt_def
      gpt_def memory_cache_def gpt_body_def start_def Let_def)

text \<open>
  C1 as stated fails: with two topics of 1500 characters each and a completion service that
  returns each passage as it is (so no summarization grows), the reducer completes with the
  Background unchanged, and its estimate is 6016, above the ceiling of 4097.
\<close>

theorem reducer_leaves_estimate_above_ceiling:
  "shorten echo_world GPT35Turbo two_topics = Some (Inr two_topics)
   \<and> fst (summarize echo_world GPT35Turbo two_topics empty_start) = Inr two_topics
   \<and> chat_completion echo_world GPT35Turbo (summarize_prompt ''A'' (replicate 1500 CHR ''a''))
       = Inr (replicate 1500 CHR ''a'')
   \<and> chat_completion echo_world GPT35Turbo (summarize_prompt ''B'' (replicate 1500 CHR ''b''))
       = Inr (replicate 1500 CHR ''b'')
   \<and> token_count echo_world GPT35Turbo (background_text two_topics) = 6016
   \<and> max_token_count GPT35Turbo = 4097"
  using two_topics_estimate two_topics_shorten two_topics_summarize
  by (simp add: echo_world_def sample_world_def summarize_prompt_def)

lemma two_topics_requests:
  "gpt_query_count (snd (summarize echo_world GPT35Turbo two_topics empty_start)) = 2
   \<and> completions (snd (summarize echo_world GPT35Turbo two_topics empty_start))
       = [(GPT35Turbo, summarize_prompt ''A'' (replicate 1500 CHR ''a'')),
          (GPT35Turbo, summarize_prompt ''B'' (replicate 1500 CHR ''b''))]"
  by (simp add: summarize_def two_topics_def token_count_def echo_world_def
      sample_world_def char_tokens_def background_text_def summarize_prompt_def
      gpt_def memory_cache_def gpt_body_def start_def Let_def)

lemma one_topic_fits:
  "shorten sample_world GPT35Turbo [(''A'', Some ''1989'')] = Some (Inr [(''A'', Some ''1989'')])
   \<and> summarize sample_world GPT35Turbo [(''A'', Some ''1989'')] empty_start
       = (Inr [(''A'', Some ''1989'')], empty_start)
   \<and> token_count sample_world GPT35Turbo (background_text [(''A'', Some ''1989'')])
       \<le> max_token_count GPT35Turbo"
  by (simp add: shorten_def shorten_text_under summarize_def token_count_def sample_world_def
      char_tokens_def background_text_def)

theorem reducer_single_pass_witness:
  "gpt_query_count (snd (summarize echo_world GPT35Turbo two_topics empty_start)) = 2
   \<and> map fst two_topics = map fst two_topics
   \<and> (token_count echo_world GPT35Turbo (background_text two_topics) \<le> max_token_count GPT35Turbo
      \<or> (\<forall>subject t. (subject, Some t) \<in> set two_topics \<and> t \<noteq> [] \<longrightarrow>
            (\<exists>r. map_of two_topics subject = Some (Some r)
               \<and> gpt_store (snd (summarize echo_world GPT35Turbo two_topics empty_start))
                    (summarize_prompt subject t, None) = Some r)))
   \<and> (\<forall>subject. map_of two_topics subject = map_of two_topics subject
          \<or> (\<exists>t r. map_of two_topics subject = Some (Some t) \<and> t \<noteq> []
                \<and> map_of two_topics subject = Some (Some r)
                \<and> gpt_store (snd (summarize echo_world GPT35Turbo two_topics empty_start))
                      (summarize_prompt subject t, None) = Some r))
   \<and> (\<exists>ks. completions (snd (summarize echo_world GPT35Turbo two_topics empty_start))
            = completions empty_start @ map (\<lambda>(k, t). (GPT35Turbo, summarize_prompt k t)) ks
          \<and> gpt_query_count (snd (summarize echo_world GPT35Turbo two_topics empty_start))
              = gpt_query_count empty_start + length ks
          \<and> distinct (map fst ks)
          \<and> (\<forall>(k, t)\<in>set ks. (k, Some t) \<in> set two_topics \<and> t \<noteq> [])
          \<and> length ks \<le> length two_topics)
   \<and> (token_count sample_world GPT35Turbo (background_text [(''A'', Some ''1989'')])
         \<le> max_token_count GPT35Turbo
       \<and> [(''A'', Some ''1989'')] = [(''A'', Some ''1989'')] \<and> empty_start = empty_start)"
proof -
  have d: "distinct (map fst two_topics)" by (simp add: two_topics_def)
  have su: "summarize echo_world GPT35Turbo two_topics empty_start
      = (Inr two_topics, snd (summarize echo_world GPT35Turbo two_topics empty_start))"
    using two_topics_summarize by (simp add: prod_eq_iff)
  have d1: "distinct (map fst [(''A'', Some ''1989'')])" by simp
  from one_topic_fits have sh1: "shorten sample_world GPT35Turbo [(''A'', Some ''1989'')]
      = Some (Inr [(''A'', Some ''1989'')])"
    and su1: "summarize sample_world GPT35Turbo [(''A'', Some ''1989'')] empty_start
       = (Inr [(''A'', Some ''1989'')], empty_start)"
    and fit1: "token_count sample_world GPT35Turbo (background_text [(''A'', Some ''1989'')])
       \<le> max_token_count GPT35Turbo" by simp_all
  from reducer_single_pass[OF d1 sh1 su1] fit1
  have small: "token_count sample_world GPT35Turbo (background_text [(''A'', Some ''1989'')])
         \<le> max_token_count GPT35Turbo
       \<and> [(''A'', Some ''1989'')] = [(''A'', Some ''1989'')] \<and> empty_start = empty_start"
    by blast
  from reducer_single_pass[OF d two_topics_shorten su] two_topics_requests small
  show ?thesis by (intro conjI) blast+
qed

text \<open>
  C2: the claim says that a topic for which the resolver returns \<open>None\<close> still gets a key in
  Background and an entry in Sources. The code unpacks the result into three names, so at the
  topics \<open>A\<close>, \<open>nothing\<close>, \<open>C\<close>, where the search for \<open>nothing\<close> has no result, the run
  ends with \<open>TypeError\<close>.
\<close>

theorem main_raises_when_a_topic_has_no_source:
  "map_option fst (main unresolved_world sample_args empty_start) = Some (Inl TypeError)"
  by (simp add: unresolved_world_def run_defs)

text \<open>
  C3 as stated fails: for a topic resolved to a page whose title element has no string, the
  entry of Sources has title \<open>None\<close>, and the report prints a citation line for it.
\<close>

theorem absent_title_is_printed:
  "map_option (stdout \<circ> snd) (main untitled_world sample_args empty_start) =
     Some [''ok'', ''(gpt-3.5-turbo, 2 queries)'', [], ''Sources:'', ''* [None](r4)'']"
  by (simp add: untitled_world_def run_defs)

lemma main_sample_run:
  "\<exists>s1. main sample_world sample_args empty_start = Some (Inr (), s1)
     \<and> stdout s1 = [''Error fetching r0: '' @ str_error AttributeError, ''Error fetching r1: 404'',
          ''ok'', ''(gpt-3.5-turbo, 2 queries)'', [], ''Sources:'', ''* [Two](r2)'']"
  by (simp add: run_defs)

lemma main_verbose_run:
  "map_option (stdout \<circ> snd) (main sample_world (sample_args\<lparr>verbose := True\<rparr>) empty_start) =
     Some [''Search DDG for: ok'', ''  Fetching r0'',
           ''Error fetching r0: '' @ str_error AttributeError,
           ''  Fetching r1'', ''Error fetching r1: 404'', ''  Fetching r2'',
           ''fetched:'', ''shortened:'', ''summarized:'',
           ''ok'', ''(gpt-3.5-turbo, 2 queries)'', [], ''Sources:'', ''* [Two](r2)'']"
  by (simp add: run_defs)

lemma main_untitled_run:
  "\<exists>s1. main untitled_world sample_args empty_start = Some (Inr (), s1)"
  by (simp add: untitled_world_def run_defs)

theorem sources_printed_witness:
  "\<exists>s1 search_text searches sources pre answer trailer.
      main untitled_world sample_args empty_start = Some (Inr (), s1)
    \<and> gpt_store s1 (search_prompt untitled_world sample_args, None) = Some search_text
    \<and> json_loads untitled_world search_text = Inr searches
    \<and> length sources = length searches
    \<and> (\<forall>i<length searches. \<exists>tx.
          ddg_store s1 (searches ! i) = Some (Some (fst (sources ! i), snd (sources ! i), tx)))
    \<and> stdout s1 = pre @ [answer, trailer, [], ''Sources:'']
          @ map (\<lambda>(source, t). ''* ['' @ str_opt t @ '']('' @ source @ '')'') sources"
proof -
  from main_untitled_run obtain s1 where
    m: "main untitled_world sample_args empty_start = Some (Inr (), s1)" by blast
  from sources_printed_one_line_per_topic[OF m] m show ?thesis by blast
qed

lemma main_sample_rerun:
  "\<exists>s1. main sample_world sample_args empty_start = Some (Inr (), s1)
     \<and> (\<exists>s2. main sample_world sample_args (start (gpt_store s1) (ddg_store s1) (fetch_store s1))
              = Some (Inr (), s2)
          \<and> stdout s2 = [''ok'', ''(gpt-3.5-turbo, 0 queries)'', [], ''Sources:'', ''* [Two](r2)''])"
  by (simp add: run_defs)

theorem cache_hit_witness:
  "gpt sample_world GPT35Turbo sample_question None
       (start [(sample_question, None) \<mapsto> ''1989''] Map.empty Map.empty)
     = (Inr ''1989'', start [(sample_question, None) \<mapsto> ''1989''] Map.empty Map.empty)
   \<and> gpt_query_count (snd (gpt sample_world GPT35Turbo sample_question None empty_start)) = 1
   \<and> length (completions (snd (gpt sample_world GPT35Turbo sample_question None empty_start))) = 1
   \<and> (\<exists>s1. main sample_world sample_args empty_start = Some (Inr (), s1)
         \<and> gpt_query_count s1 = length (completions s1)
         \<and> (\<exists>pre answer cites. stdout s1 = pre @
              [answer,
               ''('' @ model_name (args_model sample_args) @ '', ''
                  @ str_nat (length (completions s1)) @ '' queries)'',
               [], ''Sources:''] @ cites))"
proof -
  from main_sample_run obtain s1 where
    m: "main sample_world sample_args empty_start = Some (Inr (), s1)" by blast
  have st: "gpt_store (start [(sample_question, None) \<mapsto> ''1989''] Map.empty Map.empty)
      (sample_question, None) = Some ''1989''" by (simp add: start_def)
  have miss: "gpt sample_world GPT35Turbo sample_question None empty_start
      = (fst (gpt sample_world GPT35Turbo sample_question None empty_start),
         snd (gpt sample_world GPT35Turbo sample_question None empty_start))" by simp
  have c: "length (completions (snd (gpt sample_world GPT35Turbo sample_question None empty_start))) = 1"
    by (simp add: gpt_sample_first)
  have z: "gpt_query_count empty_start = 0" "completions empty_start = []" by (simp_all add: start_def)
  from cache_hit_keeps_counter[of
      "start [(sample_question, None) \<mapsto> ''1989''] Map.empty Map.empty" sample_question None "''1989''"
      sample_world GPT35Turbo "Inr ''1989''"
      "start [(sample_question, None) \<mapsto> ''1989''] Map.empty Map.empty"
      sample_args Map.empty Map.empty Map.empty s1] st m
  have a: "gpt sample_world GPT35Turbo sample_question None
       (start [(sample_question, None) \<mapsto> ''1989''] Map.empty Map.empty)
     = (Inr ''1989'', start [(sample_question, None) \<mapsto> ''1989''] Map.empty Map.empty)"
    and b: "gpt_query_count s1 = length (completions s1)
         \<and> (\<exists>pre answer cites. stdout s1 = pre @
              [answer,
               ''('' @ model_name (args_model sample_args) @ '', ''
                  @ str_nat (length (completions s1)) @ '' queries)'',
               [], ''Sources:''] @ cites)"
    by blast+
  from cache_hit_keeps_counter[of empty_start sample_question None "''x''"
      sample_world GPT35Turbo "fst (gpt sample_world GPT35Turbo sample_question None empty_start)"
      "snd (gpt sample_world GPT35Turbo sample_question None empty_start)"
      sample_args Map.empty Map.empty Map.empty s1] miss
  have "gpt_query_count (snd (gpt sample_world GPT35Turbo sample_question None empty_start))
        + length (completions empty_start)
      = gpt_query_count empty_start
        + length (completions (snd (gpt sample_world GPT35Turbo sample_question None empty_start)))"
    by blast
  with c z have d: "gpt_query_count (snd (gpt sample_world GPT35Turbo sample_question None empty_start)) = 1"
    by simp
  from a b c d m show ?thesis by blast
qed

end
